theory Spec2Isabelle
  imports Main "HOL-Library.Word"
begin

section \<open>Data model of \<open>consensus/tx_check.cpp\<close>\<close>

text \<open>
  \<open>CAmount\<close> is \<open>int64_t\<close>: a 64-bit word read as two's complement with \<open>sint\<close>.
  \<open>uint256\<close> is an opaque 256-bit value compared by value.
\<close>

type_synonym CAmount = "64 word"
type_synonym uint256 = "256 word"

record COutPoint =
  op_hash :: uint256
  op_n :: "32 word"

record CTxIn =
  prevout :: COutPoint
  scriptSig :: "8 word list"

record CTxOut =
  nValue :: CAmount
  scriptPubKey :: "8 word list"

text \<open>A join-split carries exactly two nullifiers (\<open>std::array<uint256, 2>\<close>).\<close>

record JSDescription =
  vpub_old :: CAmount
  vpub_new :: CAmount
  nullifiers :: "uint256 \<times> uint256"

record SpendDescription =
  nullifier :: uint256

datatype OutputDescription = OutputDescription "8 word list"

record CTransaction =
  vin :: "CTxIn list"
  vout :: "CTxOut list"
  vJoinSplit :: "JSDescription list"
  vShieldedSpend :: "SpendDescription list"
  vShieldedOutput :: "OutputDescription list"
  valueBalance :: CAmount

text \<open>
  The constants and helpers that \<open>CheckTransaction\<close> takes from the headers it
  includes are parameters of the model: the supply bound \<open>MAX_MONEY\<close>, the weight
  constants, the serialized size of a transaction (a \<open>size_t\<close>, read as a natural
  number) and the two null tests (\<open>COutPoint::IsNull\<close>, \<open>uint256::IsNull\<close>).
\<close>

record Consts =
  MAX_MONEY :: CAmount
  MAX_BLOCK_WEIGHT :: nat
  WITNESS_SCALE_FACTOR :: nat
  GetSerializeSize :: "CTransaction \<Rightarrow> nat"
  OutPoint_IsNull :: "COutPoint \<Rightarrow> bool"
  uint256_IsNull :: "uint256 \<Rightarrow> bool"

text \<open>
  How a run of the checker ends early: \<open>state.Invalid(..., reason)\<close> (the function
  returns false with that reason code), or one of the two undefined behaviours of the
  C++ source that the properties below speak about: signed overflow of an \<open>int64_t\<close> operation and
  an index past the end of a vector. Returning \<open>true\<close> is \<open>Inr ()\<close>.
\<close>

datatype abort = Invalid string | SignedOverflow | OutOfBounds

fun and_then :: "abort + 'a \<Rightarrow> ('a \<Rightarrow> abort + 'b) \<Rightarrow> abort + 'b" where
  "and_then (Inl e) f = Inl e"
| "and_then (Inr v) f = f v"

section \<open>Amount arithmetic\<close>

definition in_int64 :: "int \<Rightarrow> bool" where
  "in_int64 i = (- (2 ^ 63) \<le> i \<and> i < 2 ^ 63)"

text \<open>\<open>a + b\<close> on \<open>int64_t\<close>: the machine sum when the exact sum is representable.\<close>

definition add_amt :: "CAmount \<Rightarrow> CAmount \<Rightarrow> abort + CAmount" where
  "add_amt a b = (if in_int64 (sint a + sint b) then Inr (a + b) else Inl SignedOverflow)"

text \<open>Unary minus on \<open>int64_t\<close>.\<close>

definition neg_amt :: "CAmount \<Rightarrow> abort + CAmount" where
  "neg_amt a = (if in_int64 (- sint a) then Inr (- a) else Inl SignedOverflow)"

text \<open>
  Modelled from the spec: \<open>MoneyRange\<close> is defined in a header, not in
  \<open>tx_check.cpp\<close>; the spec reads a failed \<open>MoneyRange\<close> as "falls outside
  \<open>[0, MAX_SUPPLY]\<close>".
\<close>

definition MoneyRange :: "CAmount \<Rightarrow> CAmount \<Rightarrow> bool" where
  "MoneyRange M v = (0 \<le> sint v \<and> sint v \<le> sint M)"

section \<open>The passes of \<open>CheckTransaction\<close>\<close>

subsection \<open>Lines 13-19: shape and size\<close>

definition structural_checks :: "Consts \<Rightarrow> CTransaction \<Rightarrow> abort + unit" where
  "structural_checks P tx =
     (if vin tx = [] \<and> vJoinSplit tx = [] \<and> vShieldedSpend tx = []
        then Inl (Invalid ''bad-txns-vin-empty'')
      else if vout tx = [] \<and> vJoinSplit tx = [] \<and> vShieldedOutput tx = []
        then Inl (Invalid ''bad-txns-vout-empty'')
      else if GetSerializeSize P tx * WITNESS_SCALE_FACTOR P > MAX_BLOCK_WEIGHT P
        then Inl (Invalid ''bad-txns-oversize'')
      else Inr ())"

subsection \<open>Lines 22-32: transparent outputs\<close>

fun vout_loop :: "CAmount \<Rightarrow> CAmount \<Rightarrow> CTxOut list \<Rightarrow> abort + CAmount" where
  "vout_loop M nValueOut [] = Inr nValueOut"
| "vout_loop M nValueOut (txout # rest) =
     (if sint (nValue txout) < 0 then Inl (Invalid ''bad-txns-vout-negative'')
      else if sint (nValue txout) > sint M then Inl (Invalid ''bad-txns-vout-toolarge'')
      else and_then (add_amt nValueOut (nValue txout)) (\<lambda>nValueOut.
        if \<not> MoneyRange M nValueOut then Inl (Invalid ''bad-txns-txouttotal-toolarge'')
        else vout_loop M nValueOut rest))"

subsection \<open>Lines 35-48: the Sapling value balance, output side\<close>

definition valueBalance_checks :: "CAmount \<Rightarrow> CTransaction \<Rightarrow> CAmount \<Rightarrow> abort + CAmount" where
  "valueBalance_checks M tx nValueOut =
     (if vShieldedSpend tx = [] \<and> vShieldedOutput tx = [] \<and> valueBalance tx \<noteq> 0
        then Inl (Invalid ''bad-txns-valuebalance-nonzero'')
      else if sint (valueBalance tx) > sint M
        then Inl (Invalid ''bad-txns-valuebalance-toolarge'')
      else and_then (neg_amt M) (\<lambda>negM.
        if sint (valueBalance tx) < sint negM
          then Inl (Invalid ''bad-txns-valuebalance-toolarge'')
        else if sint (valueBalance tx) \<le> 0 then
          and_then (neg_amt (valueBalance tx)) (\<lambda>negBalance.
          and_then (add_amt nValueOut negBalance) (\<lambda>nValueOut.
            if \<not> MoneyRange M nValueOut then Inl (Invalid ''bad-txns-txouttotal-toolarge'')
            else Inr nValueOut))
        else Inr nValueOut))"

subsection \<open>Lines 51-71: join-split values, first traversal\<close>

fun joinsplit_loop :: "CAmount \<Rightarrow> CAmount \<Rightarrow> JSDescription list \<Rightarrow> abort + CAmount" where
  "joinsplit_loop M nValueOut [] = Inr nValueOut"
| "joinsplit_loop M nValueOut (joinsplit # rest) =
     (if sint (vpub_old joinsplit) < 0 then Inl (Invalid ''bad-txns-vpub_old-negative'')
      else if sint (vpub_new joinsplit) < 0 then Inl (Invalid ''bad-txns-vpub_new-negative'')
      else if sint (vpub_old joinsplit) > sint M then Inl (Invalid ''bad-txns-vpub_old-toolarge'')
      else if sint (vpub_new joinsplit) > sint M then Inl (Invalid ''bad-txns-vpub_new-toolarge'')
      else if vpub_new joinsplit \<noteq> 0 \<and> vpub_old joinsplit \<noteq> 0
        then Inl (Invalid ''bad-txns-vpubs-both-nonzero'')
      else and_then (add_amt nValueOut (vpub_old joinsplit)) (\<lambda>nValueOut.
        if \<not> MoneyRange M nValueOut then Inl (Invalid ''bad-txns-txouttotal-toolarge'')
        else joinsplit_loop M nValueOut rest))"

subsection \<open>Lines 77-93: the input side\<close>

fun joinsplit_in_loop :: "CAmount \<Rightarrow> CAmount \<Rightarrow> JSDescription list \<Rightarrow> abort + CAmount" where
  "joinsplit_in_loop M nValueIn [] = Inr nValueIn"
| "joinsplit_in_loop M nValueIn (it # rest) =
     and_then (add_amt nValueIn (vpub_new it)) (\<lambda>nValueIn.
       if \<not> MoneyRange M (vpub_new it) \<or> \<not> MoneyRange M nValueIn
         then Inl (Invalid ''bad-txns-txintotal-toolarge'')
       else joinsplit_in_loop M nValueIn rest)"

definition valueBalance_in :: "CAmount \<Rightarrow> CTransaction \<Rightarrow> CAmount \<Rightarrow> abort + CAmount" where
  "valueBalance_in M tx nValueIn =
     (if sint (valueBalance tx) \<ge> 0 then
        and_then (add_amt nValueIn (valueBalance tx)) (\<lambda>nValueIn.
          if \<not> MoneyRange M nValueIn then Inl (Invalid ''bad-txns-txintotal-toolarge'')
          else Inr nValueIn)
      else Inr nValueIn)"

subsection \<open>Lines 100-120: duplicates\<close>

text \<open>\<open>std::set::insert\<close>: the new set, and whether the element was new.\<close>

definition set_insert :: "'a \<Rightarrow> 'a set \<Rightarrow> 'a set \<times> bool" where
  "set_insert x s = (insert x s, x \<notin> s)"

fun inputs_loop :: "COutPoint set \<Rightarrow> CTxIn list \<Rightarrow> abort + COutPoint set" where
  "inputs_loop vInOutPoints [] = Inr vInOutPoints"
| "inputs_loop vInOutPoints (txin # rest) =
     (case set_insert (prevout txin) vInOutPoints of (vInOutPoints', second) \<Rightarrow>
        if \<not> second then Inl (Invalid ''bad-txns-inputs-duplicate'')
        else inputs_loop vInOutPoints' rest)"

fun nf_loop :: "uint256 set \<Rightarrow> uint256 list \<Rightarrow> abort + uint256 set" where
  "nf_loop vInSproutNullifiers [] = Inr vInSproutNullifiers"
| "nf_loop vInSproutNullifiers (nf # rest) =
     (case set_insert nf vInSproutNullifiers of (vInSproutNullifiers', second) \<Rightarrow>
        if \<not> second then Inl (Invalid ''bad-joinsplits-nullifiers-duplicate'')
        else nf_loop vInSproutNullifiers' rest)"

definition js_nullifiers :: "JSDescription \<Rightarrow> uint256 list" where
  "js_nullifiers joinsplit = [fst (nullifiers joinsplit), snd (nullifiers joinsplit)]"

fun sprout_nullifiers_loop :: "uint256 set \<Rightarrow> JSDescription list \<Rightarrow> abort + uint256 set" where
  "sprout_nullifiers_loop vInSproutNullifiers [] = Inr vInSproutNullifiers"
| "sprout_nullifiers_loop vInSproutNullifiers (joinsplit # rest) =
     and_then (nf_loop vInSproutNullifiers (js_nullifiers joinsplit)) (\<lambda>vInSproutNullifiers'.
       sprout_nullifiers_loop vInSproutNullifiers' rest)"

fun sapling_nullifiers_loop :: "uint256 set \<Rightarrow> SpendDescription list \<Rightarrow> abort + uint256 set" where
  "sapling_nullifiers_loop vInSaplingNullifiers [] = Inr vInSaplingNullifiers"
| "sapling_nullifiers_loop vInSaplingNullifiers (spend_desc # rest) =
     (case set_insert (nullifier spend_desc) vInSaplingNullifiers of (vInSaplingNullifiers', second) \<Rightarrow>
        if \<not> second then Inl (Invalid ''bad-spend-description-nullifiers-duplicate'')
        else sapling_nullifiers_loop vInSaplingNullifiers' rest)"

subsection \<open>Lines 122-140: coinbase and ordinary transactions\<close>

text \<open>
  Modelled from the spec: \<open>CTransaction::IsCoinBase\<close> is defined in a header, not in
  \<open>tx_check.cpp\<close>. The spec: a transaction is "coinbase" if its first transparent
  input's previous-output reference is the null sentinel. A transaction without
  transparent inputs has no first input.
\<close>

definition IsCoinBase :: "Consts \<Rightarrow> CTransaction \<Rightarrow> bool" where
  "IsCoinBase P tx =
     (case vin tx of [] \<Rightarrow> False | txin # _ \<Rightarrow> OutPoint_IsNull P (prevout txin))"

fun prevout_null_loop :: "Consts \<Rightarrow> CTxIn list \<Rightarrow> abort + unit" where
  "prevout_null_loop P [] = Inr ()"
| "prevout_null_loop P (txin # rest) =
     (if OutPoint_IsNull P (prevout txin) then Inl (Invalid ''bad-txns-prevout-null'')
      else prevout_null_loop P rest)"

fun nullifier_null_loop :: "Consts \<Rightarrow> SpendDescription list \<Rightarrow> abort + unit" where
  "nullifier_null_loop P [] = Inr ()"
| "nullifier_null_loop P (spend_desc # rest) =
     (if uint256_IsNull P (nullifier spend_desc)
        then Inl (Invalid ''bad-spend-description-nullifier-null'')
      else nullifier_null_loop P rest)"

text \<open>The coinbase branch reads \<open>tx.vin[0]\<close>: past the end when \<open>vin\<close> is empty.\<close>

definition coinbase_checks :: "CTransaction \<Rightarrow> abort + unit" where
  "coinbase_checks tx =
     (case vin tx of
        [] \<Rightarrow> Inl OutOfBounds
      | txin0 # _ \<Rightarrow>
          if length (scriptSig txin0) < 2 \<or> length (scriptSig txin0) > 100
            then Inl (Invalid ''bad-cb-length'')
          else if length (vShieldedSpend tx) > 0
            then Inl (Invalid ''bad-cb-has-spend-description'')
          else Inr ())"

definition ordinary_checks :: "Consts \<Rightarrow> CTransaction \<Rightarrow> abort + unit" where
  "ordinary_checks P tx =
     and_then (prevout_null_loop P (vin tx)) (\<lambda>_.
       nullifier_null_loop P (vShieldedSpend tx))"

definition coinbase_or_ordinary :: "Consts \<Rightarrow> CTransaction \<Rightarrow> abort + unit" where
  "coinbase_or_ordinary P tx =
     (if IsCoinBase P tx then coinbase_checks tx else ordinary_checks P tx)"

subsection \<open>The whole function\<close>

definition CheckTransaction :: "Consts \<Rightarrow> CTransaction \<Rightarrow> abort + unit" where
  "CheckTransaction P tx =
     and_then (structural_checks P tx) (\<lambda>_.
     and_then (vout_loop (MAX_MONEY P) 0 (vout tx)) (\<lambda>nValueOut.
     and_then (valueBalance_checks (MAX_MONEY P) tx nValueOut) (\<lambda>nValueOut.
     and_then (joinsplit_loop (MAX_MONEY P) nValueOut (vJoinSplit tx)) (\<lambda>nValueOut.
     and_then (joinsplit_in_loop (MAX_MONEY P) 0 (vJoinSplit tx)) (\<lambda>nValueIn.
     and_then (valueBalance_in (MAX_MONEY P) tx nValueIn) (\<lambda>nValueIn.
     and_then (inputs_loop {} (vin tx)) (\<lambda>_.
     and_then (sprout_nullifiers_loop {} (vJoinSplit tx)) (\<lambda>_.
     and_then (sapling_nullifiers_loop {} (vShieldedSpend tx)) (\<lambda>_.
     coinbase_or_ordinary P tx)))))))))"

subsection \<open>What has run when a pass is reached\<close>

text \<open>
  The prefixes of \<open>CheckTransaction\<close>: \<open>reaches_4_3\<close> is lines 13-32 and yields
  \<open>nValueOut\<close> as the value-balance checks find it, \<open>reaches_4_4\<close> is lines 13-48,
  \<open>reaches_4_5\<close> is lines 13-93 and yields \<open>nValueIn\<close>, \<open>reaches_4_6\<close> is lines 13-120.
  A pass is reached when the prefix before it is \<open>Inr\<close>.
\<close>

definition reaches_4_3 :: "Consts \<Rightarrow> CTransaction \<Rightarrow> abort + CAmount" where
  "reaches_4_3 P tx =
     and_then (structural_checks P tx) (\<lambda>_. vout_loop (MAX_MONEY P) 0 (vout tx))"

definition reaches_4_4 :: "Consts \<Rightarrow> CTransaction \<Rightarrow> abort + CAmount" where
  "reaches_4_4 P tx =
     and_then (reaches_4_3 P tx) (valueBalance_checks (MAX_MONEY P) tx)"

definition reaches_4_5 :: "Consts \<Rightarrow> CTransaction \<Rightarrow> abort + CAmount" where
  "reaches_4_5 P tx =
     and_then (reaches_4_4 P tx) (\<lambda>nValueOut.
     and_then (joinsplit_loop (MAX_MONEY P) nValueOut (vJoinSplit tx)) (\<lambda>_.
     and_then (joinsplit_in_loop (MAX_MONEY P) 0 (vJoinSplit tx))
       (valueBalance_in (MAX_MONEY P) tx)))"

definition duplicate_checks :: "CTransaction \<Rightarrow> abort + unit" where
  "duplicate_checks tx =
     and_then (inputs_loop {} (vin tx)) (\<lambda>_.
     and_then (sprout_nullifiers_loop {} (vJoinSplit tx)) (\<lambda>_.
     and_then (sapling_nullifiers_loop {} (vShieldedSpend tx)) (\<lambda>_. Inr ())))"

definition reaches_4_6 :: "Consts \<Rightarrow> CTransaction \<Rightarrow> abort + unit" where
  "reaches_4_6 P tx = and_then (reaches_4_5 P tx) (\<lambda>_. duplicate_checks tx)"

section \<open>The arithmetic a run performs\<close>

text \<open>
  To speak about the operands of each \<open>+=\<close> and unary minus, the arithmetic passes
  (lines 22-93) are written a second time so that they also return the list of the
  \<open>int64_t\<close> operations they execute, in order: \<open>Add a b\<close> for an addition with
  left operand \<open>a\<close> (the running total) and right operand \<open>b\<close>, \<open>Neg a\<close> for a
  negation of \<open>a\<close>. Control flow, checks and reason codes are those of the passes
  above; the first component of the result is shown below to be the result of the pass.
\<close>

datatype amount_op = Add CAmount CAmount | Neg CAmount

type_synonym 'a logged = "(abort + 'a) \<times> amount_op list"

definition unlogged :: "abort + 'a \<Rightarrow> 'a logged" where
  "unlogged r = (r, [])"

definition add_amt_logged :: "CAmount \<Rightarrow> CAmount \<Rightarrow> CAmount logged" where
  "add_amt_logged a b = (add_amt a b, [Add a b])"

definition neg_amt_logged :: "CAmount \<Rightarrow> CAmount logged" where
  "neg_amt_logged a = (neg_amt a, [Neg a])"

text \<open>Sequencing: the second step runs after a first step that did not end the run.\<close>

fun and_then_logged :: "'a logged \<Rightarrow> ('a \<Rightarrow> 'b logged) \<Rightarrow> 'b logged" where
  "and_then_logged (Inl e, ops) f = (Inl e, ops)"
| "and_then_logged (Inr v, ops) f = (fst (f v), ops @ snd (f v))"

text \<open>Lines 22-32; the addition is line 29.\<close>

fun vout_loop_logged :: "CAmount \<Rightarrow> CAmount \<Rightarrow> CTxOut list \<Rightarrow> CAmount logged" where
  "vout_loop_logged M nValueOut [] = unlogged (Inr nValueOut)"
| "vout_loop_logged M nValueOut (txout # rest) =
     (if sint (nValue txout) < 0 then unlogged (Inl (Invalid ''bad-txns-vout-negative''))
      else if sint (nValue txout) > sint M
        then unlogged (Inl (Invalid ''bad-txns-vout-toolarge''))
      else and_then_logged (add_amt_logged nValueOut (nValue txout)) (\<lambda>nValueOut.
        if \<not> MoneyRange M nValueOut
          then unlogged (Inl (Invalid ''bad-txns-txouttotal-toolarge''))
        else vout_loop_logged M nValueOut rest))"

text \<open>Lines 35-48; the negations are in lines 39 and 44, the addition is line 44.\<close>

definition valueBalance_checks_logged :: "CAmount \<Rightarrow> CTransaction \<Rightarrow> CAmount \<Rightarrow> CAmount logged" where
  "valueBalance_checks_logged M tx nValueOut =
     (if vShieldedSpend tx = [] \<and> vShieldedOutput tx = [] \<and> valueBalance tx \<noteq> 0
        then unlogged (Inl (Invalid ''bad-txns-valuebalance-nonzero''))
      else if sint (valueBalance tx) > sint M
        then unlogged (Inl (Invalid ''bad-txns-valuebalance-toolarge''))
      else and_then_logged (neg_amt_logged M) (\<lambda>negM.
        if sint (valueBalance tx) < sint negM
          then unlogged (Inl (Invalid ''bad-txns-valuebalance-toolarge''))
        else if sint (valueBalance tx) \<le> 0 then
          and_then_logged (neg_amt_logged (valueBalance tx)) (\<lambda>negBalance.
          and_then_logged (add_amt_logged nValueOut negBalance) (\<lambda>nValueOut.
            if \<not> MoneyRange M nValueOut
              then unlogged (Inl (Invalid ''bad-txns-txouttotal-toolarge''))
            else unlogged (Inr nValueOut)))
        else unlogged (Inr nValueOut)))"

text \<open>Lines 51-71; the addition is line 68.\<close>

fun joinsplit_loop_logged :: "CAmount \<Rightarrow> CAmount \<Rightarrow> JSDescription list \<Rightarrow> CAmount logged" where
  "joinsplit_loop_logged M nValueOut [] = unlogged (Inr nValueOut)"
| "joinsplit_loop_logged M nValueOut (joinsplit # rest) =
     (if sint (vpub_old joinsplit) < 0
        then unlogged (Inl (Invalid ''bad-txns-vpub_old-negative''))
      else if sint (vpub_new joinsplit) < 0
        then unlogged (Inl (Invalid ''bad-txns-vpub_new-negative''))
      else if sint (vpub_old joinsplit) > sint M
        then unlogged (Inl (Invalid ''bad-txns-vpub_old-toolarge''))
      else if sint (vpub_new joinsplit) > sint M
        then unlogged (Inl (Invalid ''bad-txns-vpub_new-toolarge''))
      else if vpub_new joinsplit \<noteq> 0 \<and> vpub_old joinsplit \<noteq> 0
        then unlogged (Inl (Invalid ''bad-txns-vpubs-both-nonzero''))
      else and_then_logged (add_amt_logged nValueOut (vpub_old joinsplit)) (\<lambda>nValueOut.
        if \<not> MoneyRange M nValueOut
          then unlogged (Inl (Invalid ''bad-txns-txouttotal-toolarge''))
        else joinsplit_loop_logged M nValueOut rest))"

text \<open>Lines 77-84; the addition is line 80.\<close>

fun joinsplit_in_loop_logged :: "CAmount \<Rightarrow> CAmount \<Rightarrow> JSDescription list \<Rightarrow> CAmount logged" where
  "joinsplit_in_loop_logged M nValueIn [] = unlogged (Inr nValueIn)"
| "joinsplit_in_loop_logged M nValueIn (it # rest) =
     and_then_logged (add_amt_logged nValueIn (vpub_new it)) (\<lambda>nValueIn.
       if \<not> MoneyRange M (vpub_new it) \<or> \<not> MoneyRange M nValueIn
         then unlogged (Inl (Invalid ''bad-txns-txintotal-toolarge''))
       else joinsplit_in_loop_logged M nValueIn rest)"

text \<open>Lines 87-93; the addition is line 89.\<close>

definition valueBalance_in_logged :: "CAmount \<Rightarrow> CTransaction \<Rightarrow> CAmount \<Rightarrow> CAmount logged" where
  "valueBalance_in_logged M tx nValueIn =
     (if sint (valueBalance tx) \<ge> 0 then
        and_then_logged (add_amt_logged nValueIn (valueBalance tx)) (\<lambda>nValueIn.
          if \<not> MoneyRange M nValueIn
            then unlogged (Inl (Invalid ''bad-txns-txintotal-toolarge''))
          else unlogged (Inr nValueIn))
      else unlogged (Inr nValueIn))"

text \<open>The whole function; lines 13-19 and 100-140 do no arithmetic on amounts.\<close>

definition CheckTransaction_logged :: "Consts \<Rightarrow> CTransaction \<Rightarrow> unit logged" where
  "CheckTransaction_logged P tx =
     and_then_logged (unlogged (structural_checks P tx)) (\<lambda>_.
     and_then_logged (vout_loop_logged (MAX_MONEY P) 0 (vout tx)) (\<lambda>nValueOut.
     and_then_logged (valueBalance_checks_logged (MAX_MONEY P) tx nValueOut) (\<lambda>nValueOut.
     and_then_logged (joinsplit_loop_logged (MAX_MONEY P) nValueOut (vJoinSplit tx)) (\<lambda>nValueOut.
     and_then_logged (joinsplit_in_loop_logged (MAX_MONEY P) 0 (vJoinSplit tx)) (\<lambda>nValueIn.
     and_then_logged (valueBalance_in_logged (MAX_MONEY P) tx nValueIn) (\<lambda>nValueIn.
     unlogged (
       and_then (inputs_loop {} (vin tx)) (\<lambda>_.
       and_then (sprout_nullifiers_loop {} (vJoinSplit tx)) (\<lambda>_.
       and_then (sapling_nullifiers_loop {} (vShieldedSpend tx)) (\<lambda>_.
       coinbase_or_ordinary P tx))))))))))"

text \<open>
  An operation's operands are confirmed: both operands of an addition lie in
  \<open>[0, MAX_MONEY]\<close>; the operand of a negation lies in \<open>[-MAX_MONEY, MAX_MONEY]\<close>.
  An operation is exact when its result is representable in \<open>int64_t\<close>.
\<close>

definition operands_confirmed :: "CAmount \<Rightarrow> amount_op \<Rightarrow> bool" where
  "operands_confirmed M op =
     (case op of
        Add a b \<Rightarrow> MoneyRange M a \<and> MoneyRange M b
      | Neg a \<Rightarrow> - sint M \<le> sint a \<and> sint a \<le> sint M)"

definition op_exact :: "amount_op \<Rightarrow> bool" where
  "op_exact op =
     (case op of
        Add a b \<Rightarrow> in_int64 (sint a + sint b)
      | Neg a \<Rightarrow> in_int64 (- sint a))"

text \<open>
  A run's arithmetic is checked: every operation of the log has confirmed operands and is
  exact, and every sum lies in \<open>[0, MAX_MONEY]\<close>, unless it is the last operation of a
  run that ends right there with one of the two total-too-large reason codes.
\<close>

definition log_checked :: "CAmount \<Rightarrow> 'a logged \<Rightarrow> bool" where
  "log_checked M m =
     ((\<forall>op\<in>set (snd m). operands_confirmed M op \<and> op_exact op)
      \<and> (\<forall>ops a b ops'. snd m = ops @ Add a b # ops' \<longrightarrow>
            MoneyRange M (a + b)
            \<or> (ops' = [] \<and> (fst m = Inl (Invalid ''bad-txns-txouttotal-toolarge'')
                              \<or> fst m = Inl (Invalid ''bad-txns-txintotal-toolarge'')))))"

section \<open>Notions of the specification\<close>

text \<open>
  The accounted totals as exact integers: on the output side the transparent outputs,
  the negated value balance when it is not positive, and every \<open>vpub_old\<close>; on the input
  side every \<open>vpub_new\<close> and the value balance when it is not negative.
\<close>

definition out_total :: "CTransaction \<Rightarrow> int" where
  "out_total tx =
     (\<Sum>txout\<leftarrow>vout tx. sint (nValue txout))
     + (if sint (valueBalance tx) \<le> 0 then - sint (valueBalance tx) else 0)
     + (\<Sum>joinsplit\<leftarrow>vJoinSplit tx. sint (vpub_old joinsplit))"

definition in_total :: "CTransaction \<Rightarrow> int" where
  "in_total tx =
     (\<Sum>joinsplit\<leftarrow>vJoinSplit tx. sint (vpub_new joinsplit))
     + (if 0 \<le> sint (valueBalance tx) then sint (valueBalance tx) else 0)"

text \<open>The input-side running total after the first \<open>k\<close> join-splits.\<close>

definition in_running_total :: "JSDescription list \<Rightarrow> nat \<Rightarrow> int" where
  "in_running_total js k = (\<Sum>joinsplit\<leftarrow>take k js. sint (vpub_new joinsplit))"

text \<open>The four per-amount checks of a join-split (lines 53-63) all pass.\<close>

definition per_amount_ok :: "CAmount \<Rightarrow> JSDescription \<Rightarrow> bool" where
  "per_amount_ok M joinsplit =
     (0 \<le> sint (vpub_old joinsplit) \<and> 0 \<le> sint (vpub_new joinsplit)
      \<and> sint (vpub_old joinsplit) \<le> sint M \<and> sint (vpub_new joinsplit) \<le> sint M)"

text \<open>
  The specification's variant of lines 87-93 (its section 4.4): the delta is added to
  \<open>total_in\<close> only when it is strictly positive. \<open>CheckTransaction_spec\<close> is
  \<open>CheckTransaction\<close> with that one step exchanged.
\<close>

definition valueBalance_in_spec :: "CAmount \<Rightarrow> CTransaction \<Rightarrow> CAmount \<Rightarrow> abort + CAmount" where
  "valueBalance_in_spec M tx total_in =
     (if sint (valueBalance tx) > 0 then
        and_then (add_amt total_in (valueBalance tx)) (\<lambda>total_in.
          if \<not> MoneyRange M total_in then Inl (Invalid ''bad-txns-txintotal-toolarge'')
          else Inr total_in)
      else Inr total_in)"

definition CheckTransaction_spec :: "Consts \<Rightarrow> CTransaction \<Rightarrow> abort + unit" where
  "CheckTransaction_spec P tx =
     and_then (structural_checks P tx) (\<lambda>_.
     and_then (vout_loop (MAX_MONEY P) 0 (vout tx)) (\<lambda>total_out.
     and_then (valueBalance_checks (MAX_MONEY P) tx total_out) (\<lambda>total_out.
     and_then (joinsplit_loop (MAX_MONEY P) total_out (vJoinSplit tx)) (\<lambda>total_out.
     and_then (joinsplit_in_loop (MAX_MONEY P) 0 (vJoinSplit tx)) (\<lambda>total_in.
     and_then (valueBalance_in_spec (MAX_MONEY P) tx total_in) (\<lambda>total_in.
     and_then (inputs_loop {} (vin tx)) (\<lambda>_.
     and_then (sprout_nullifiers_loop {} (vJoinSplit tx)) (\<lambda>_.
     and_then (sapling_nullifiers_loop {} (vShieldedSpend tx)) (\<lambda>_.
     coinbase_or_ordinary P tx)))))))))"

section \<open>Concrete inputs\<close>

text \<open>
  Constants for the examples: the supply bound of Bitcoin (21 million coins of
  \<open>10^8\<close> units), its weight constants, a fixed serialized size, the null outpoint as
  the all-zero hash with index \<open>0xffffffff\<close>, and the null \<open>uint256\<close> as zero.
\<close>

definition example_consts :: Consts where
  "example_consts =
     \<lparr> MAX_MONEY = 2100000000000000, MAX_BLOCK_WEIGHT = 4000000,
       WITNESS_SCALE_FACTOR = 4, GetSerializeSize = (\<lambda>tx. 200),
       OutPoint_IsNull = (\<lambda>p. op_hash p = 0 \<and> op_n p = 4294967295),
       uint256_IsNull = (\<lambda>h. h = 0) \<rparr>"

definition mk_in :: "uint256 \<Rightarrow> 32 word \<Rightarrow> nat \<Rightarrow> CTxIn" where
  "mk_in h i len = \<lparr> prevout = \<lparr> op_hash = h, op_n = i \<rparr>, scriptSig = replicate len 0 \<rparr>"

definition mk_out :: "CAmount \<Rightarrow> CTxOut" where
  "mk_out v = \<lparr> nValue = v, scriptPubKey = [] \<rparr>"

definition mk_js :: "CAmount \<Rightarrow> CAmount \<Rightarrow> uint256 \<Rightarrow> uint256 \<Rightarrow> JSDescription" where
  "mk_js old new nf1 nf2 = \<lparr> vpub_old = old, vpub_new = new, nullifiers = (nf1, nf2) \<rparr>"

text \<open>An ordinary payment: one input, one output of 5 units.\<close>

definition tx_plain :: CTransaction where
  "tx_plain =
     \<lparr> vin = [mk_in 7 0 0], vout = [mk_out 5], vJoinSplit = [], vShieldedSpend = [],
       vShieldedOutput = [], valueBalance = 0 \<rparr>"

text \<open>A coinbase transaction whose unlocking script has \<open>len\<close> bytes.\<close>

definition tx_coinbase :: "nat \<Rightarrow> CTransaction" where
  "tx_coinbase len =
     \<lparr> vin = [mk_in 0 4294967295 len], vout = [mk_out 5], vJoinSplit = [], vShieldedSpend = [],
       vShieldedOutput = [], valueBalance = 0 \<rparr>"

text \<open>Value moving through both shielded pools, all totals in range.\<close>

definition tx_shielded :: CTransaction where
  "tx_shielded =
     \<lparr> vin = [mk_in 7 0 0], vout = [mk_out 5],
       vJoinSplit = [mk_js 3 0 11 12, mk_js 0 4 13 14],
       vShieldedSpend = [\<lparr> nullifier = 11 \<rparr>],
       vShieldedOutput = [], valueBalance = - 2 \<rparr>"

text \<open>The same input referenced twice, with and without a transparent output.\<close>

definition tx_dup_inputs :: CTransaction where
  "tx_dup_inputs =
     \<lparr> vin = [mk_in 7 0 0, mk_in 7 0 0], vout = [mk_out 5], vJoinSplit = [],
       vShieldedSpend = [], vShieldedOutput = [], valueBalance = 0 \<rparr>"

definition tx_dup_inputs_no_out :: CTransaction where
  "tx_dup_inputs_no_out =
     \<lparr> vin = [mk_in 7 0 0, mk_in 7 0 0], vout = [], vJoinSplit = [],
       vShieldedSpend = [], vShieldedOutput = [], valueBalance = 0 \<rparr>"

text \<open>No Sapling descriptions and a value balance of \<open>MAX_MONEY + 1\<close>.\<close>

definition tx_nonzero_balance :: CTransaction where
  "tx_nonzero_balance =
     \<lparr> vin = [mk_in 7 0 0], vout = [mk_out 5], vJoinSplit = [], vShieldedSpend = [],
       vShieldedOutput = [], valueBalance = 2100000000000001 \<rparr>"

text \<open>
  Two join-splits, the second with both amounts non-zero; the first has a negative
  \<open>vpub_old\<close> in \<open>tx_js_negative_first\<close> and is well-formed in \<open>tx_js_both_nonzero\<close>.
\<close>

definition tx_js_negative_first :: CTransaction where
  "tx_js_negative_first =
     \<lparr> vin = [mk_in 7 0 0], vout = [mk_out 5],
       vJoinSplit = [mk_js (- 1) 0 11 12, mk_js 1 1 13 14],
       vShieldedSpend = [], vShieldedOutput = [], valueBalance = 0 \<rparr>"

definition tx_js_both_nonzero :: CTransaction where
  "tx_js_both_nonzero =
     \<lparr> vin = [mk_in 7 0 0], vout = [mk_out 5],
       vJoinSplit = [mk_js 3 0 11 12, mk_js 1 1 13 14],
       vShieldedSpend = [], vShieldedOutput = [], valueBalance = 0 \<rparr>"

text \<open>No transparent inputs or outputs: value leaves the first-generation pool only.\<close>

definition tx_joinsplit_only :: CTransaction where
  "tx_joinsplit_only =
     \<lparr> vin = [], vout = [], vJoinSplit = [mk_js 0 4 13 14],
       vShieldedSpend = [], vShieldedOutput = [], valueBalance = 0 \<rparr>"

text \<open>Two outputs whose sum is \<open>MAX_MONEY + 1\<close>.\<close>

definition tx_out_total_too_large :: CTransaction where
  "tx_out_total_too_large =
     \<lparr> vin = [mk_in 7 0 0], vout = [mk_out 2100000000000000, mk_out 1], vJoinSplit = [],
       vShieldedSpend = [], vShieldedOutput = [], valueBalance = 0 \<rparr>"

section \<open>Basic facts\<close>

lemmas example_defs =
  example_consts_def mk_in_def mk_out_def mk_js_def tx_plain_def tx_coinbase_def tx_shielded_def
  tx_dup_inputs_def tx_dup_inputs_no_out_def tx_nonzero_balance_def tx_js_negative_first_def
  tx_js_both_nonzero_def tx_joinsplit_only_def tx_out_total_too_large_def

lemmas pass_defs =
  structural_checks_def valueBalance_checks_def valueBalance_in_def set_insert_def
  js_nullifiers_def IsCoinBase_def coinbase_checks_def ordinary_checks_def
  coinbase_or_ordinary_def add_amt_def neg_amt_def in_int64_def MoneyRange_def

lemmas logged_defs =
  unlogged_def add_amt_logged_def neg_amt_logged_def valueBalance_checks_logged_def
  valueBalance_in_logged_def

lemmas prefix_defs =
  reaches_4_3_def reaches_4_4_def reaches_4_5_def reaches_4_6_def duplicate_checks_def

lemma and_then_assoc:
  "and_then (and_then m f) g = and_then m (\<lambda>x. and_then (f x) g)"
  by (cases m) simp_all

lemma and_then_Inr_iff:
  "and_then m f = Inr y \<longleftrightarrow> (\<exists>x. m = Inr x \<and> f x = Inr y)"
  by (cases m) simp_all

lemma and_then_Inl_iff:
  "and_then m f = Inl e \<longleftrightarrow> m = Inl e \<or> (\<exists>x. m = Inr x \<and> f x = Inl e)"
  by (cases m) auto

lemma add_amt_Inr: "add_amt a b = Inr c \<Longrightarrow> sint c = sint a + sint b"
  by (auto simp: add_amt_def in_int64_def sint_word_ariths signed_take_bit_int_eq_self
      split: if_splits)

lemma neg_amt_Inr: "neg_amt a = Inr c \<Longrightarrow> sint c = - sint a"
  by (auto simp: neg_amt_def in_int64_def sint_word_ariths signed_take_bit_int_eq_self
      split: if_splits)

lemma add_amt_Inl: "add_amt a b = Inl e \<Longrightarrow> e = SignedOverflow \<and> \<not> in_int64 (sint a + sint b)"
  by (auto simp: add_amt_def split: if_splits)

lemma neg_amt_Inl: "neg_amt a = Inl e \<Longrightarrow> e = SignedOverflow \<and> \<not> in_int64 (- sint a)"
  by (auto simp: neg_amt_def split: if_splits)

lemma add_amt_total: "in_int64 (sint a + sint b) \<Longrightarrow> \<exists>c. add_amt a b = Inr c"
  by (simp add: add_amt_def)

lemma add_amt_zero: "add_amt a 0 = Inr a"
  using sint_range_size [of a] by (simp add: add_amt_def in_int64_def word_size)

section \<open>The prefixes compose to the whole function\<close>

lemma CheckTransaction_from_4_3:
  "CheckTransaction P tx =
     and_then (reaches_4_3 P tx) (\<lambda>nValueOut.
     and_then (valueBalance_checks (MAX_MONEY P) tx nValueOut) (\<lambda>nValueOut.
     and_then (joinsplit_loop (MAX_MONEY P) nValueOut (vJoinSplit tx)) (\<lambda>_.
     and_then (joinsplit_in_loop (MAX_MONEY P) 0 (vJoinSplit tx)) (\<lambda>nValueIn.
     and_then (valueBalance_in (MAX_MONEY P) tx nValueIn) (\<lambda>_.
     and_then (duplicate_checks tx) (\<lambda>_. coinbase_or_ordinary P tx))))))"
  by (simp add: CheckTransaction_def reaches_4_3_def duplicate_checks_def and_then_assoc)

lemma CheckTransaction_from_4_4:
  "CheckTransaction P tx =
     and_then (reaches_4_4 P tx) (\<lambda>nValueOut.
     and_then (joinsplit_loop (MAX_MONEY P) nValueOut (vJoinSplit tx)) (\<lambda>_.
     and_then (joinsplit_in_loop (MAX_MONEY P) 0 (vJoinSplit tx)) (\<lambda>nValueIn.
     and_then (valueBalance_in (MAX_MONEY P) tx nValueIn) (\<lambda>_.
     and_then (duplicate_checks tx) (\<lambda>_. coinbase_or_ordinary P tx)))))"
  by (simp add: CheckTransaction_from_4_3 reaches_4_4_def and_then_assoc)

lemma CheckTransaction_from_4_5:
  "CheckTransaction P tx =
     and_then (reaches_4_5 P tx) (\<lambda>_.
     and_then (duplicate_checks tx) (\<lambda>_. coinbase_or_ordinary P tx))"
  by (simp add: CheckTransaction_from_4_4 reaches_4_5_def and_then_assoc)

lemma CheckTransaction_from_4_6:
  "CheckTransaction P tx = and_then (reaches_4_6 P tx) (\<lambda>_. coinbase_or_ordinary P tx)"
  by (simp add: CheckTransaction_from_4_5 reaches_4_6_def and_then_assoc)

section \<open>Transparent outputs\<close>

lemma vout_loop_Inr:
  "vout_loop M a outs = Inr a' \<Longrightarrow>
     sint a' = sint a + (\<Sum>txout\<leftarrow>outs. sint (nValue txout))
     \<and> (\<forall>txout\<in>set outs. 0 \<le> sint (nValue txout) \<and> sint (nValue txout) \<le> sint M)
     \<and> (MoneyRange M a \<longrightarrow> MoneyRange M a')"
proof (induction outs arbitrary: a)
  case Nil
  then show ?case by simp
next
  case (Cons txout rest)
  from Cons.prems obtain s where s: "add_amt a (nValue txout) = Inr s"
    and ok: "\<not> sint (nValue txout) < 0" "\<not> sint (nValue txout) > sint M" "MoneyRange M s"
    and rest: "vout_loop M s rest = Inr a'"
    by (auto simp: and_then_Inr_iff split: if_splits)
  from Cons.IH [OF rest] add_amt_Inr [OF s] ok show ?case by simp
qed

lemma vout_loop_no_overflow:
  "MoneyRange M a \<Longrightarrow> 2 * sint M < 2 ^ 63 \<Longrightarrow> vout_loop M a outs = Inl e \<Longrightarrow> \<exists>r. e = Invalid r"
proof (induction outs arbitrary: a)
  case Nil
  then show ?case by simp
next
  case (Cons txout rest)
  show ?case
  proof (cases "sint (nValue txout) < 0 \<or> sint (nValue txout) > sint M")
    case True
    with Cons.prems show ?thesis by (auto split: if_splits)
  next
    case False
    with Cons.prems(1,2) have "in_int64 (sint a + sint (nValue txout))"
      by (simp add: in_int64_def MoneyRange_def)
    then obtain s where s: "add_amt a (nValue txout) = Inr s"
      using add_amt_total by blast
    with False Cons.prems Cons.IH [of s] show ?thesis
      by (auto split: if_splits)
  qed
qed

lemma vout_loop_Inl:
  "vout_loop M a outs = Inl e \<Longrightarrow>
     e \<in> {SignedOverflow, Invalid ''bad-txns-vout-negative'', Invalid ''bad-txns-vout-toolarge'',
          Invalid ''bad-txns-txouttotal-toolarge''}"
proof (induction outs arbitrary: a)
  case Nil
  then show ?case by simp
next
  case (Cons txout rest)
  show ?case
  proof (cases "add_amt a (nValue txout)")
    case (Inl e')
    then have "e' = SignedOverflow" by (simp add: add_amt_Inl)
    with Inl Cons.prems show ?thesis by (simp split: if_splits)
  next
    case (Inr s)
    with Cons.prems Cons.IH [of s] show ?thesis by (simp split: if_splits)
  qed
qed

section \<open>The value balance, output side\<close>

lemma valueBalance_checks_Inr:
  assumes "valueBalance_checks M tx a = Inr a'"
  shows "0 \<le> sint M" and "- sint M \<le> sint (valueBalance tx)"
    and "sint (valueBalance tx) \<le> sint M"
    and "sint a' = sint a + (if sint (valueBalance tx) \<le> 0 then - sint (valueBalance tx) else 0)"
    and "MoneyRange M a \<Longrightarrow> MoneyRange M a'"
    and "vShieldedSpend tx = [] \<Longrightarrow> vShieldedOutput tx = [] \<Longrightarrow> valueBalance tx = 0"
proof -
  from assms obtain negM where negM: "neg_amt M = Inr negM"
    and le: "\<not> sint (valueBalance tx) > sint M" "\<not> sint (valueBalance tx) < sint negM"
    and nz: "\<not> (vShieldedSpend tx = [] \<and> vShieldedOutput tx = [] \<and> valueBalance tx \<noteq> 0)"
    and tl: "(if sint (valueBalance tx) \<le> 0 then
          and_then (neg_amt (valueBalance tx)) (\<lambda>negBalance.
          and_then (add_amt a negBalance) (\<lambda>nValueOut.
            if \<not> MoneyRange M nValueOut then Inl (Invalid ''bad-txns-txouttotal-toolarge'')
            else Inr nValueOut))
        else Inr a) = Inr a'"
    by (auto simp: valueBalance_checks_def and_then_Inr_iff split: if_splits)
  from neg_amt_Inr [OF negM] le
  show b: "- sint M \<le> sint (valueBalance tx)" "sint (valueBalance tx) \<le> sint M" by simp_all
  then show "0 \<le> sint M" by simp
  from nz show "vShieldedSpend tx = [] \<Longrightarrow> vShieldedOutput tx = [] \<Longrightarrow> valueBalance tx = 0"
    by simp
  show "sint a' = sint a + (if sint (valueBalance tx) \<le> 0 then - sint (valueBalance tx) else 0)"
    using tl by (auto simp: and_then_Inr_iff split: if_splits dest!: neg_amt_Inr add_amt_Inr)
  show "MoneyRange M a \<Longrightarrow> MoneyRange M a'"
    using tl by (auto simp: and_then_Inr_iff split: if_splits)
qed

lemma valueBalance_checks_no_overflow:
  assumes "0 \<le> sint M" "2 * sint M < 2 ^ 63" "MoneyRange M a"
    and "valueBalance_checks M tx a = Inl e"
  shows "\<exists>r. e = Invalid r"
proof -
  from assms(1,2) obtain negM where negM: "neg_amt M = Inr negM"
    using sint_range_size [of M] by (auto simp: neg_amt_def in_int64_def)
  note sn = neg_amt_Inr [OF negM]
  show ?thesis
  proof (cases "- sint M \<le> sint (valueBalance tx) \<and> sint (valueBalance tx) \<le> 0")
    case True
    with assms(2) obtain nb where nb: "neg_amt (valueBalance tx) = Inr nb"
      by (auto simp: neg_amt_def in_int64_def)
    from True assms(1-3) neg_amt_Inr [OF nb] have "in_int64 (sint a + sint nb)"
      by (simp add: in_int64_def MoneyRange_def)
    then obtain s where s: "add_amt a nb = Inr s" using add_amt_total by blast
    from assms(4) negM nb s sn True show ?thesis
      by (auto simp: valueBalance_checks_def split: if_splits)
  next
    case False
    with assms(4) negM sn show ?thesis
      by (auto simp: valueBalance_checks_def split: if_splits)
  qed
qed

lemma valueBalance_checks_Inl:
  "valueBalance_checks M tx a = Inl e \<Longrightarrow>
     e \<in> {SignedOverflow, Invalid ''bad-txns-valuebalance-nonzero'',
          Invalid ''bad-txns-valuebalance-toolarge'', Invalid ''bad-txns-txouttotal-toolarge''}"
  by (auto simp: valueBalance_checks_def and_then_Inl_iff split: if_splits
      dest: add_amt_Inl neg_amt_Inl)

section \<open>Join-splits, first traversal\<close>

lemma joinsplit_loop_Inr:
  "joinsplit_loop M a js = Inr a' \<Longrightarrow>
     sint a' = sint a + (\<Sum>joinsplit\<leftarrow>js. sint (vpub_old joinsplit))
     \<and> (\<forall>joinsplit\<in>set js. per_amount_ok M joinsplit
           \<and> (vpub_new joinsplit = 0 \<or> vpub_old joinsplit = 0))
     \<and> (MoneyRange M a \<longrightarrow> MoneyRange M a')"
proof (induction js arbitrary: a)
  case Nil
  then show ?case by simp
next
  case (Cons joinsplit rest)
  from Cons.prems obtain s where s: "add_amt a (vpub_old joinsplit) = Inr s"
    and ok: "per_amount_ok M joinsplit" "vpub_new joinsplit = 0 \<or> vpub_old joinsplit = 0"
      "MoneyRange M s"
    and rest: "joinsplit_loop M s rest = Inr a'"
    by (auto simp: and_then_Inr_iff per_amount_ok_def split: if_splits)
  from Cons.IH [OF rest] add_amt_Inr [OF s] ok show ?case by simp
qed

lemma joinsplit_loop_no_overflow:
  "MoneyRange M a \<Longrightarrow> 2 * sint M < 2 ^ 63 \<Longrightarrow> joinsplit_loop M a js = Inl e
     \<Longrightarrow> \<exists>r. e = Invalid r"
proof (induction js arbitrary: a)
  case Nil
  then show ?case by simp
next
  case (Cons joinsplit rest)
  show ?case
  proof (cases "sint (vpub_old joinsplit) < 0 \<or> sint (vpub_old joinsplit) > sint M")
    case True
    with Cons.prems show ?thesis by (auto split: if_splits)
  next
    case False
    with Cons.prems(1,2) have "in_int64 (sint a + sint (vpub_old joinsplit))"
      by (simp add: in_int64_def MoneyRange_def)
    then obtain s where s: "add_amt a (vpub_old joinsplit) = Inr s"
      using add_amt_total by blast
    with False Cons.prems Cons.IH [of s] show ?thesis
      by (auto split: if_splits)
  qed
qed

lemma joinsplit_loop_Inl:
  "joinsplit_loop M a js = Inl e \<Longrightarrow>
     e \<in> {SignedOverflow, Invalid ''bad-txns-vpub_old-negative'',
          Invalid ''bad-txns-vpub_new-negative'', Invalid ''bad-txns-vpub_old-toolarge'',
          Invalid ''bad-txns-vpub_new-toolarge'', Invalid ''bad-txns-vpubs-both-nonzero'',
          Invalid ''bad-txns-txouttotal-toolarge''}"
proof (induction js arbitrary: a)
  case Nil
  then show ?case by simp
next
  case (Cons joinsplit rest)
  show ?case
  proof (cases "add_amt a (vpub_old joinsplit)")
    case (Inl e')
    then have "e' = SignedOverflow" by (simp add: add_amt_Inl)
    with Inl Cons.prems show ?thesis by (simp split: if_splits)
  next
    case (Inr s)
    with Cons.prems Cons.IH [of s] show ?thesis by (simp split: if_splits)
  qed
qed

lemma and_then_if:
  "and_then (if c then x else y) f = (if c then and_then x f else and_then y f)"
  by simp

lemma joinsplit_loop_append:
  "joinsplit_loop M a (xs @ ys) = and_then (joinsplit_loop M a xs) (\<lambda>a'. joinsplit_loop M a' ys)"
  by (induction xs arbitrary: a) (simp_all add: and_then_assoc and_then_if cong: if_cong)

section \<open>The input side\<close>

lemma joinsplit_in_loop_Inr:
  "joinsplit_in_loop M a js = Inr a' \<Longrightarrow>
     sint a' = sint a + (\<Sum>joinsplit\<leftarrow>js. sint (vpub_new joinsplit))
     \<and> (\<forall>joinsplit\<in>set js. MoneyRange M (vpub_new joinsplit))
     \<and> (MoneyRange M a \<longrightarrow> MoneyRange M a')"
proof (induction js arbitrary: a)
  case Nil
  then show ?case by simp
next
  case (Cons it rest)
  from Cons.prems obtain s where s: "add_amt a (vpub_new it) = Inr s"
    and ok: "MoneyRange M (vpub_new it)" "MoneyRange M s"
    and rest: "joinsplit_in_loop M s rest = Inr a'"
    by (auto simp: and_then_Inr_iff split: if_splits)
  from Cons.IH [OF rest] add_amt_Inr [OF s] ok show ?case by simp
qed

lemma joinsplit_in_loop_no_overflow:
  "MoneyRange M a \<Longrightarrow> 2 * sint M < 2 ^ 63 \<Longrightarrow> \<forall>joinsplit\<in>set js. per_amount_ok M joinsplit
     \<Longrightarrow> joinsplit_in_loop M a js = Inl e \<Longrightarrow> \<exists>r. e = Invalid r"
proof (induction js arbitrary: a)
  case Nil
  then show ?case by simp
next
  case (Cons it rest)
  from Cons.prems(1-3) have "in_int64 (sint a + sint (vpub_new it))"
    by (simp add: in_int64_def MoneyRange_def per_amount_ok_def)
  then obtain s where s: "add_amt a (vpub_new it) = Inr s"
    using add_amt_total by blast
  with Cons.prems Cons.IH [of s] show ?case
    by (auto split: if_splits)
qed

lemma joinsplit_in_loop_Inl:
  "joinsplit_in_loop M a js = Inl e \<Longrightarrow>
     e \<in> {SignedOverflow, Invalid ''bad-txns-txintotal-toolarge''}"
proof (induction js arbitrary: a)
  case Nil
  then show ?case by simp
next
  case (Cons it rest)
  show ?case
  proof (cases "add_amt a (vpub_new it)")
    case (Inl e')
    then have "e' = SignedOverflow" by (simp add: add_amt_Inl)
    with Inl Cons.prems show ?thesis by (simp split: if_splits)
  next
    case (Inr s)
    with Cons.prems Cons.IH [of s] show ?thesis by (simp split: if_splits)
  qed
qed

lemma valueBalance_in_Inr:
  "valueBalance_in M tx a = Inr a' \<Longrightarrow>
     sint a' = sint a + (if 0 \<le> sint (valueBalance tx) then sint (valueBalance tx) else 0)
     \<and> (MoneyRange M a \<longrightarrow> MoneyRange M a')"
  by (auto simp: valueBalance_in_def and_then_Inr_iff split: if_splits dest!: add_amt_Inr)

lemma valueBalance_in_no_overflow:
  assumes "MoneyRange M a" "2 * sint M < 2 ^ 63" "sint (valueBalance tx) \<le> sint M"
    and "valueBalance_in M tx a = Inl e"
  shows "\<exists>r. e = Invalid r"
proof (cases "0 \<le> sint (valueBalance tx)")
  case True
  with assms(1-3) have "in_int64 (sint a + sint (valueBalance tx))"
    by (simp add: in_int64_def MoneyRange_def)
  then obtain s where "add_amt a (valueBalance tx) = Inr s"
    using add_amt_total by blast
  with assms(4) True show ?thesis
    by (auto simp: valueBalance_in_def split: if_splits)
next
  case False
  with assms(4) show ?thesis by (simp add: valueBalance_in_def)
qed

lemma valueBalance_in_Inl:
  "valueBalance_in M tx a = Inl e \<Longrightarrow>
     e \<in> {SignedOverflow, Invalid ''bad-txns-txintotal-toolarge''}"
  by (auto simp: valueBalance_in_def and_then_Inl_iff split: if_splits dest: add_amt_Inl)

section \<open>Duplicates\<close>

lemma inputs_loop_eq:
  "inputs_loop seen ins =
     (if distinct (map prevout ins) \<and> set (map prevout ins) \<inter> seen = {}
      then Inr (seen \<union> set (map prevout ins))
      else Inl (Invalid ''bad-txns-inputs-duplicate''))"
  by (induction ins arbitrary: seen) (auto simp: set_insert_def)

lemma nf_loop_eq:
  "nf_loop seen nfs =
     (if distinct nfs \<and> set nfs \<inter> seen = {} then Inr (seen \<union> set nfs)
      else Inl (Invalid ''bad-joinsplits-nullifiers-duplicate''))"
  by (induction nfs arbitrary: seen) (auto simp: set_insert_def)

lemma sprout_nullifiers_loop_eq:
  "sprout_nullifiers_loop seen js =
     (if distinct (concat (map js_nullifiers js)) \<and> set (concat (map js_nullifiers js)) \<inter> seen = {}
      then Inr (seen \<union> set (concat (map js_nullifiers js)))
      else Inl (Invalid ''bad-joinsplits-nullifiers-duplicate''))"
proof (induction js arbitrary: seen)
  case Nil
  then show ?case by simp
next
  case (Cons joinsplit rest)
  show ?case
    by (auto simp: nf_loop_eq Cons.IH)
qed

lemma sapling_nullifiers_loop_eq:
  "sapling_nullifiers_loop seen spends =
     (if distinct (map nullifier spends) \<and> set (map nullifier spends) \<inter> seen = {}
      then Inr (seen \<union> set (map nullifier spends))
      else Inl (Invalid ''bad-spend-description-nullifiers-duplicate''))"
  by (induction spends arbitrary: seen) (auto simp: set_insert_def)

lemma duplicate_checks_eq:
  "duplicate_checks tx =
     (if \<not> distinct (map prevout (vin tx)) then Inl (Invalid ''bad-txns-inputs-duplicate'')
      else if \<not> distinct (concat (map js_nullifiers (vJoinSplit tx)))
        then Inl (Invalid ''bad-joinsplits-nullifiers-duplicate'')
      else if \<not> distinct (map nullifier (vShieldedSpend tx))
        then Inl (Invalid ''bad-spend-description-nullifiers-duplicate'')
      else Inr ())"
  by (simp add: duplicate_checks_def inputs_loop_eq sprout_nullifiers_loop_eq
      sapling_nullifiers_loop_eq)

section \<open>Coinbase and ordinary transactions\<close>

lemma prevout_null_loop_cases:
  "prevout_null_loop P ins = Inr () \<or> prevout_null_loop P ins = Inl (Invalid ''bad-txns-prevout-null'')"
  by (induction ins) simp_all

lemma nullifier_null_loop_cases:
  "nullifier_null_loop P spends = Inr ()
     \<or> nullifier_null_loop P spends = Inl (Invalid ''bad-spend-description-nullifier-null'')"
  by (induction spends) simp_all

lemma ordinary_checks_Inl:
  "ordinary_checks P tx = Inl e \<Longrightarrow>
     e \<in> {Invalid ''bad-txns-prevout-null'', Invalid ''bad-spend-description-nullifier-null''}"
  using prevout_null_loop_cases [of P "vin tx"] nullifier_null_loop_cases [of P "vShieldedSpend tx"]
  by (auto simp: ordinary_checks_def)

lemma IsCoinBase_vin: "IsCoinBase P tx \<Longrightarrow> vin tx \<noteq> []"
  by (auto simp: IsCoinBase_def)

lemma coinbase_checks_Inl:
  "vin tx \<noteq> [] \<Longrightarrow> coinbase_checks tx = Inl e \<Longrightarrow>
     e \<in> {Invalid ''bad-cb-length'', Invalid ''bad-cb-has-spend-description''}"
  by (auto simp: coinbase_checks_def split: list.splits if_splits)

lemma coinbase_or_ordinary_Inl:
  "coinbase_or_ordinary P tx = Inl e \<Longrightarrow>
     e \<in> {Invalid ''bad-cb-length'', Invalid ''bad-cb-has-spend-description'',
          Invalid ''bad-txns-prevout-null'', Invalid ''bad-spend-description-nullifier-null''}"
  using coinbase_checks_Inl [of tx e] ordinary_checks_Inl [of P tx e] IsCoinBase_vin [of P tx]
  by (auto simp: coinbase_or_ordinary_def split: if_splits)

section \<open>How the prefixes can end\<close>

lemma structural_checks_Inl:
  "structural_checks P tx = Inl e \<Longrightarrow>
     e \<in> {Invalid ''bad-txns-vin-empty'', Invalid ''bad-txns-vout-empty'', Invalid ''bad-txns-oversize''}"
  by (simp add: structural_checks_def split: if_splits)

lemma and_then_InlE:
  assumes "and_then m f = Inl e"
  obtains "m = Inl e" | x where "m = Inr x" "f x = Inl e"
  using assms by (cases m) auto

lemma reaches_4_3_Inl:
  assumes "reaches_4_3 P tx = Inl e"
  shows "e \<in> {SignedOverflow,
     Invalid ''bad-txns-vin-empty'', Invalid ''bad-txns-vout-empty'', Invalid ''bad-txns-oversize'',
     Invalid ''bad-txns-vout-negative'', Invalid ''bad-txns-vout-toolarge'',
     Invalid ''bad-txns-txouttotal-toolarge''}"
  using assms unfolding reaches_4_3_def
proof (cases rule: and_then_InlE)
  case 1
  from structural_checks_Inl [OF this] show ?thesis by auto
next
  case (2 x)
  from vout_loop_Inl [OF 2(2)] show ?thesis by auto
qed

lemma reaches_4_4_Inl:
  assumes "reaches_4_4 P tx = Inl e"
  shows "e \<in> {SignedOverflow,
     Invalid ''bad-txns-vin-empty'', Invalid ''bad-txns-vout-empty'', Invalid ''bad-txns-oversize'',
     Invalid ''bad-txns-vout-negative'', Invalid ''bad-txns-vout-toolarge'',
     Invalid ''bad-txns-txouttotal-toolarge'', Invalid ''bad-txns-valuebalance-nonzero'',
     Invalid ''bad-txns-valuebalance-toolarge''}"
  using assms unfolding reaches_4_4_def
proof (cases rule: and_then_InlE)
  case 1
  from reaches_4_3_Inl [OF this] show ?thesis by auto
next
  case (2 x)
  from valueBalance_checks_Inl [OF 2(2)] show ?thesis by auto
qed

lemma reaches_4_5_Inl:
  assumes "reaches_4_5 P tx = Inl e"
  shows "e \<in> {SignedOverflow,
     Invalid ''bad-txns-vin-empty'', Invalid ''bad-txns-vout-empty'', Invalid ''bad-txns-oversize'',
     Invalid ''bad-txns-vout-negative'', Invalid ''bad-txns-vout-toolarge'',
     Invalid ''bad-txns-txouttotal-toolarge'', Invalid ''bad-txns-valuebalance-nonzero'',
     Invalid ''bad-txns-valuebalance-toolarge'', Invalid ''bad-txns-vpub_old-negative'',
     Invalid ''bad-txns-vpub_new-negative'', Invalid ''bad-txns-vpub_old-toolarge'',
     Invalid ''bad-txns-vpub_new-toolarge'', Invalid ''bad-txns-vpubs-both-nonzero'',
     Invalid ''bad-txns-txintotal-toolarge''}"
  using assms unfolding reaches_4_5_def
proof (cases rule: and_then_InlE)
  case 1
  from reaches_4_4_Inl [OF this] show ?thesis by auto
next
  case (2 a)
  from 2(2) show ?thesis
  proof (cases rule: and_then_InlE)
    case 1
    from joinsplit_loop_Inl [OF this] show ?thesis by auto
  next
    case (2 b)
    from 2(2) show ?thesis
    proof (cases rule: and_then_InlE)
      case 1
      from joinsplit_in_loop_Inl [OF this] show ?thesis by auto
    next
      case (2 c)
      from valueBalance_in_Inl [OF 2(2)] show ?thesis by auto
    qed
  qed
qed

lemma reaches_4_5_not_duplicate:
  assumes "reaches_4_5 P tx = Inl (Invalid r)"
  shows "r \<noteq> ''bad-txns-inputs-duplicate''" "r \<noteq> ''bad-joinsplits-nullifiers-duplicate''"
    "r \<noteq> ''bad-spend-description-nullifiers-duplicate''"
  using reaches_4_5_Inl [OF assms] by auto

section \<open>No overflow in the passes\<close>

lemma coinbase_or_ordinary_no_fault:
  "coinbase_or_ordinary P tx \<noteq> Inl SignedOverflow" "coinbase_or_ordinary P tx \<noteq> Inl OutOfBounds"
  using coinbase_or_ordinary_Inl [of P tx] by auto

lemma duplicate_checks_no_fault:
  "duplicate_checks tx \<noteq> Inl SignedOverflow" "duplicate_checks tx \<noteq> Inl OutOfBounds"
  by (simp_all add: duplicate_checks_eq)

lemma reaches_4_3_in_range:
  assumes "0 \<le> sint (MAX_MONEY P)" "2 * sint (MAX_MONEY P) < 2 ^ 63"
  shows "reaches_4_3 P tx \<noteq> Inl SignedOverflow"
    and "reaches_4_3 P tx = Inr a \<Longrightarrow> MoneyRange (MAX_MONEY P) a"
proof -
  from assms(1) have M0: "MoneyRange (MAX_MONEY P) 0" by (simp add: MoneyRange_def)
  show "reaches_4_3 P tx \<noteq> Inl SignedOverflow"
  proof
    assume "reaches_4_3 P tx = Inl SignedOverflow"
    then show False unfolding reaches_4_3_def
    proof (cases rule: and_then_InlE)
      case 1
      then show False by (simp add: structural_checks_def split: if_splits)
    next
      case (2 x)
      from vout_loop_no_overflow [OF M0 assms(2) 2(2)] show False by simp
    qed
  qed
  show "reaches_4_3 P tx = Inr a \<Longrightarrow> MoneyRange (MAX_MONEY P) a"
    using vout_loop_Inr [of "MAX_MONEY P" 0 "vout tx" a] M0
    by (auto simp: reaches_4_3_def and_then_Inr_iff)
qed

lemma reaches_4_4_in_range:
  assumes "0 \<le> sint (MAX_MONEY P)" "2 * sint (MAX_MONEY P) < 2 ^ 63"
  shows "reaches_4_4 P tx \<noteq> Inl SignedOverflow"
    and "reaches_4_4 P tx = Inr a \<Longrightarrow> MoneyRange (MAX_MONEY P) a"
proof -
  show "reaches_4_4 P tx \<noteq> Inl SignedOverflow"
  proof
    assume "reaches_4_4 P tx = Inl SignedOverflow"
    then show False unfolding reaches_4_4_def
    proof (cases rule: and_then_InlE)
      case 1
      with reaches_4_3_in_range(1) [OF assms] show False by simp
    next
      case (2 x)
      from valueBalance_checks_no_overflow [OF assms reaches_4_3_in_range(2) [OF assms 2(1)] 2(2)]
      show False by simp
    qed
  qed
  show "reaches_4_4 P tx = Inr a \<Longrightarrow> MoneyRange (MAX_MONEY P) a"
    using reaches_4_3_in_range(2) [OF assms] valueBalance_checks_Inr(5)
    by (auto simp: reaches_4_4_def and_then_Inr_iff)
qed

lemma reaches_4_5_in_range:
  assumes "0 \<le> sint (MAX_MONEY P)" "2 * sint (MAX_MONEY P) < 2 ^ 63"
  shows "reaches_4_5 P tx \<noteq> Inl SignedOverflow"
    and "reaches_4_5 P tx = Inr b \<Longrightarrow> MoneyRange (MAX_MONEY P) b"
proof -
  let ?M = "MAX_MONEY P"
  from assms(1) have M0: "MoneyRange ?M 0" by (simp add: MoneyRange_def)
  show "reaches_4_5 P tx \<noteq> Inl SignedOverflow"
  proof
    assume "reaches_4_5 P tx = Inl SignedOverflow"
    then show False unfolding reaches_4_5_def
    proof (cases rule: and_then_InlE)
      case 1
      with reaches_4_4_in_range(1) [OF assms] show False by simp
    next
      case (2 a2)
      note a2 = reaches_4_4_in_range(2) [OF assms 2(1)]
      have vb: "sint (valueBalance tx) \<le> sint ?M"
        using 2(1) valueBalance_checks_Inr(3)
        by (auto simp: reaches_4_4_def and_then_Inr_iff)
      from 2(2) show False
      proof (cases rule: and_then_InlE)
        case 1
        from joinsplit_loop_no_overflow [OF a2 assms(2) 1] show False by simp
      next
        case (2 a3)
        from joinsplit_loop_Inr [OF 2(1)]
        have ok: "\<forall>joinsplit\<in>set (vJoinSplit tx). per_amount_ok ?M joinsplit" by blast
        from 2(2) show False
        proof (cases rule: and_then_InlE)
          case 1
          from joinsplit_in_loop_no_overflow [OF M0 assms(2) ok 1] show False by simp
        next
          case (2 b1)
          from joinsplit_in_loop_Inr [OF 2(1)] M0 have "MoneyRange ?M b1" by blast
          from valueBalance_in_no_overflow [OF this assms(2) vb 2(2)] show False by simp
        qed
      qed
    qed
  qed
  show "reaches_4_5 P tx = Inr b \<Longrightarrow> MoneyRange ?M b"
  proof -
    assume "reaches_4_5 P tx = Inr b"
    then obtain b1 where b1: "joinsplit_in_loop ?M 0 (vJoinSplit tx) = Inr b1"
      and b: "valueBalance_in ?M tx b1 = Inr b"
      unfolding reaches_4_5_def and_then_Inr_iff by blast
    from joinsplit_in_loop_Inr [OF b1] M0 have "MoneyRange ?M b1" by blast
    with valueBalance_in_Inr [OF b] show "MoneyRange ?M b" by blast
  qed
qed

section \<open>The logged passes\<close>

lemma fst_and_then_logged:
  "fst (and_then_logged m f) = and_then (fst m) (\<lambda>v. fst (f v))"
  by (cases m; cases "fst m") auto

lemma snd_and_then_logged:
  "snd (and_then_logged m f) = (case fst m of Inl e \<Rightarrow> snd m | Inr v \<Rightarrow> snd m @ snd (f v))"
  by (cases m; cases "fst m") auto

lemma fst_vout_loop_logged: "fst (vout_loop_logged M a outs) = vout_loop M a outs"
  by (induction outs arbitrary: a)
    (simp_all add: fst_and_then_logged unlogged_def add_amt_logged_def if_distrib [of fst]
      cong: if_cong)

lemma fst_valueBalance_checks_logged:
  "fst (valueBalance_checks_logged M tx a) = valueBalance_checks M tx a"
  by (simp add: valueBalance_checks_logged_def valueBalance_checks_def fst_and_then_logged
      unlogged_def add_amt_logged_def neg_amt_logged_def if_distrib [of fst] cong: if_cong)

lemma fst_joinsplit_loop_logged: "fst (joinsplit_loop_logged M a js) = joinsplit_loop M a js"
  by (induction js arbitrary: a)
    (simp_all add: fst_and_then_logged unlogged_def add_amt_logged_def if_distrib [of fst]
      cong: if_cong)

lemma fst_joinsplit_in_loop_logged:
  "fst (joinsplit_in_loop_logged M a js) = joinsplit_in_loop M a js"
  by (induction js arbitrary: a)
    (simp_all add: fst_and_then_logged unlogged_def add_amt_logged_def if_distrib [of fst]
      cong: if_cong)

lemma fst_valueBalance_in_logged:
  "fst (valueBalance_in_logged M tx a) = valueBalance_in M tx a"
  by (simp add: valueBalance_in_logged_def valueBalance_in_def fst_and_then_logged
      unlogged_def add_amt_logged_def if_distrib [of fst] cong: if_cong)

lemmas fst_logged =
  fst_vout_loop_logged fst_valueBalance_checks_logged fst_joinsplit_loop_logged
  fst_joinsplit_in_loop_logged fst_valueBalance_in_logged

lemma fst_CheckTransaction_logged:
  "fst (CheckTransaction_logged P tx) = CheckTransaction P tx"
  by (simp add: CheckTransaction_logged_def CheckTransaction_def fst_and_then_logged fst_logged
      unlogged_def)

lemma log_checked_unlogged: "log_checked M (unlogged r)"
  by (simp add: log_checked_def unlogged_def)

lemma log_checked_and_then:
  assumes m: "log_checked M m"
    and f: "\<And>v. fst m = Inr v \<Longrightarrow> log_checked M (f v)"
  shows "log_checked M (and_then_logged m f)"
proof (cases "fst m")
  case (Inl e)
  then have "and_then_logged m f = (Inl e, snd m)" by (cases m) simp
  with m Inl show ?thesis by (simp add: log_checked_def)
next
  case (Inr v)
  then have eq: "and_then_logged m f = (fst (f v), snd m @ snd (f v))" by (cases m) simp
  note fv = f [OF Inr]
  have ops: "\<forall>op\<in>set (snd m @ snd (f v)). operands_confirmed M op \<and> op_exact op"
    using m fv by (auto simp: log_checked_def)
  have sums: "MoneyRange M (a + b)
      \<or> (ops' = [] \<and> (fst (f v) = Inl (Invalid ''bad-txns-txouttotal-toolarge'')
                        \<or> fst (f v) = Inl (Invalid ''bad-txns-txintotal-toolarge'')))"
    if split: "snd m @ snd (f v) = ops @ Add a b # ops'" for ops a b ops'
  proof -
    from split consider us where "snd m = ops @ Add a b # us" "ops' = us @ snd (f v)"
      | us where "ops = snd m @ us" "snd (f v) = us @ Add a b # ops'"
      by (auto simp: append_eq_append_conv2 append_eq_Cons_conv Cons_eq_append_conv)
    then show ?thesis
    proof cases
      case 1
      with m Inr show ?thesis unfolding log_checked_def by fastforce
    next
      case 2
      with fv show ?thesis unfolding log_checked_def by blast
    qed
  qed
  from ops sums show ?thesis unfolding eq log_checked_def by simp
qed

lemma log_checked_neg:
  assumes "- sint M \<le> sint a" "sint a \<le> sint M"
  shows "log_checked M (neg_amt_logged a)"
proof -
  have "in_int64 (- sint a)"
    using assms sint_range_size [of M] by (simp add: in_int64_def word_size)
  with assms show ?thesis
    by (simp add: log_checked_def neg_amt_logged_def operands_confirmed_def op_exact_def
        Cons_eq_append_conv)
qed

lemma log_checked_add_check:
  assumes a: "MoneyRange M a" and b: "MoneyRange M b" and M: "2 * sint M < 2 ^ 63"
    and r: "r = ''bad-txns-txouttotal-toolarge'' \<or> r = ''bad-txns-txintotal-toolarge''"
    and g: "\<And>s. MoneyRange M s \<Longrightarrow> add_amt a b = Inr s \<Longrightarrow> log_checked M (g s)"
  shows "log_checked M
     (and_then_logged (add_amt_logged a b) (\<lambda>s.
        if \<not> MoneyRange M s then unlogged (Inl (Invalid r)) else g s))"
proof -
  from a b M have ex: "in_int64 (sint a + sint b)"
    by (simp add: in_int64_def MoneyRange_def)
  then have add: "add_amt a b = Inr (a + b)" by (simp add: add_amt_def)
  have op: "operands_confirmed M (Add a b) \<and> op_exact (Add a b)"
    using a b ex by (simp add: operands_confirmed_def op_exact_def)
  show ?thesis
  proof (cases "MoneyRange M (a + b)")
    case False
    with op r show ?thesis
      by (auto simp: add_amt_logged_def add unlogged_def log_checked_def append_eq_Cons_conv
          Cons_eq_append_conv)
  next
    case True
    note gs = g [OF True add]
    have eq: "and_then_logged (add_amt_logged a b) (\<lambda>s.
        if \<not> MoneyRange M s then unlogged (Inl (Invalid r)) else g s)
        = (fst (g (a + b)), Add a b # snd (g (a + b)))"
      using True by (simp add: add_amt_logged_def add)
    have sums: "MoneyRange M (a' + b')
        \<or> (ops' = [] \<and> (fst (g (a + b)) = Inl (Invalid ''bad-txns-txouttotal-toolarge'')
                          \<or> fst (g (a + b)) = Inl (Invalid ''bad-txns-txintotal-toolarge'')))"
      if split: "Add a b # snd (g (a + b)) = ops @ Add a' b' # ops'" for ops a' b' ops'
    proof (cases ops)
      case Nil
      with split True show ?thesis by simp
    next
      case (Cons u us)
      with split have "snd (g (a + b)) = us @ Add a' b' # ops'" by simp
      with gs show ?thesis unfolding log_checked_def by blast
    qed
    from op gs sums show ?thesis unfolding eq log_checked_def by simp
  qed
qed

lemma vout_loop_logged_checked:
  "MoneyRange M a \<Longrightarrow> 2 * sint M < 2 ^ 63 \<Longrightarrow> log_checked M (vout_loop_logged M a outs)"
proof (induction outs arbitrary: a)
  case Nil
  then show ?case by (simp add: log_checked_unlogged)
next
  case (Cons txout rest)
  show ?case
  proof (cases "sint (nValue txout) < 0 \<or> sint (nValue txout) > sint M")
    case True
    then show ?thesis by (auto simp: log_checked_unlogged)
  next
    case False
    then have b: "MoneyRange M (nValue txout)" by (simp add: MoneyRange_def)
    have "log_checked M
       (and_then_logged (add_amt_logged a (nValue txout)) (\<lambda>s.
          if \<not> MoneyRange M s then unlogged (Inl (Invalid ''bad-txns-txouttotal-toolarge''))
          else vout_loop_logged M s rest))"
      using Cons.prems b by (intro log_checked_add_check Cons.IH) simp_all
    with False show ?thesis by simp
  qed
qed

lemma joinsplit_loop_logged_checked:
  "MoneyRange M a \<Longrightarrow> 2 * sint M < 2 ^ 63 \<Longrightarrow> log_checked M (joinsplit_loop_logged M a js)"
proof (induction js arbitrary: a)
  case Nil
  then show ?case by (simp add: log_checked_unlogged)
next
  case (Cons joinsplit rest)
  show ?case
  proof (cases "sint (vpub_old joinsplit) < 0 \<or> sint (vpub_old joinsplit) > sint M")
    case True
    then show ?thesis by (auto simp: log_checked_unlogged)
  next
    case False
    then have b: "MoneyRange M (vpub_old joinsplit)" by (simp add: MoneyRange_def)
    have "log_checked M
       (and_then_logged (add_amt_logged a (vpub_old joinsplit)) (\<lambda>s.
          if \<not> MoneyRange M s then unlogged (Inl (Invalid ''bad-txns-txouttotal-toolarge''))
          else joinsplit_loop_logged M s rest))"
      using Cons.prems b by (intro log_checked_add_check Cons.IH) simp_all
    with False show ?thesis by (simp add: log_checked_unlogged)
  qed
qed

lemma joinsplit_in_loop_logged_checked:
  "MoneyRange M a \<Longrightarrow> 2 * sint M < 2 ^ 63
     \<Longrightarrow> \<forall>joinsplit\<in>set js. MoneyRange M (vpub_new joinsplit)
     \<Longrightarrow> log_checked M (joinsplit_in_loop_logged M a js)"
proof (induction js arbitrary: a)
  case Nil
  then show ?case by (simp add: log_checked_unlogged)
next
  case (Cons it rest)
  from Cons.prems(3) have b: "MoneyRange M (vpub_new it)"
    and rest: "\<forall>joinsplit\<in>set rest. MoneyRange M (vpub_new joinsplit)" by simp_all
  have "log_checked M
     (and_then_logged (add_amt_logged a (vpub_new it)) (\<lambda>s.
        if \<not> MoneyRange M s then unlogged (Inl (Invalid ''bad-txns-txintotal-toolarge''))
        else joinsplit_in_loop_logged M s rest))"
    using Cons.prems(1,2) b rest by (intro log_checked_add_check Cons.IH) simp_all
  with b show ?case by simp
qed

lemma valueBalance_checks_logged_checked:
  assumes M0: "0 \<le> sint M" and M: "2 * sint M < 2 ^ 63" and a: "MoneyRange M a"
  shows "log_checked M (valueBalance_checks_logged M tx a)"
proof -
  let ?vb = "valueBalance tx"
  have tail: "log_checked M
      (if sint ?vb < sint negM
         then unlogged (Inl (Invalid ''bad-txns-valuebalance-toolarge''))
       else if sint ?vb \<le> 0 then
         and_then_logged (neg_amt_logged ?vb) (\<lambda>negBalance.
         and_then_logged (add_amt_logged a negBalance) (\<lambda>nValueOut.
           if \<not> MoneyRange M nValueOut
             then unlogged (Inl (Invalid ''bad-txns-txouttotal-toolarge''))
           else unlogged (Inr nValueOut)))
       else unlogged (Inr a))"
    if le: "\<not> sint ?vb > sint M" and negM: "fst (neg_amt_logged M) = Inr negM" for negM
  proof -
    from negM have sn: "sint negM = - sint M"
      by (simp add: neg_amt_logged_def neg_amt_Inr)
    show ?thesis
    proof (cases "\<not> sint ?vb < sint negM \<and> sint ?vb \<le> 0")
      case False
      then show ?thesis by (auto simp: log_checked_unlogged)
    next
      case True
      with sn have range: "- sint M \<le> sint ?vb" "sint ?vb \<le> sint M" "sint ?vb \<le> 0"
        using M0 by simp_all
      have "log_checked M
         (and_then_logged (neg_amt_logged ?vb) (\<lambda>negBalance.
          and_then_logged (add_amt_logged a negBalance) (\<lambda>nValueOut.
            if \<not> MoneyRange M nValueOut
              then unlogged (Inl (Invalid ''bad-txns-txouttotal-toolarge''))
            else unlogged (Inr nValueOut))))"
      proof (rule log_checked_and_then)
        show "log_checked M (neg_amt_logged ?vb)"
          using range(1,2) by (rule log_checked_neg)
      next
        fix negBalance
        assume "fst (neg_amt_logged ?vb) = Inr negBalance"
        then have "sint negBalance = - sint ?vb"
          by (simp add: neg_amt_logged_def neg_amt_Inr)
        with range have b: "MoneyRange M negBalance" by (simp add: MoneyRange_def)
        show "log_checked M
           (and_then_logged (add_amt_logged a negBalance) (\<lambda>nValueOut.
              if \<not> MoneyRange M nValueOut
                then unlogged (Inl (Invalid ''bad-txns-txouttotal-toolarge''))
              else unlogged (Inr nValueOut)))"
          using a b M by (intro log_checked_add_check log_checked_unlogged) simp_all
      qed
      with True show ?thesis by simp
    qed
  qed
  show ?thesis
  proof (cases "(vShieldedSpend tx = [] \<and> vShieldedOutput tx = [] \<and> ?vb \<noteq> 0)
      \<or> sint ?vb > sint M")
    case True
    then show ?thesis by (auto simp: valueBalance_checks_logged_def log_checked_unlogged)
  next
    case False
    have "log_checked M (and_then_logged (neg_amt_logged M) (\<lambda>negM.
        if sint ?vb < sint negM
          then unlogged (Inl (Invalid ''bad-txns-valuebalance-toolarge''))
        else if sint ?vb \<le> 0 then
          and_then_logged (neg_amt_logged ?vb) (\<lambda>negBalance.
          and_then_logged (add_amt_logged a negBalance) (\<lambda>nValueOut.
            if \<not> MoneyRange M nValueOut
              then unlogged (Inl (Invalid ''bad-txns-txouttotal-toolarge''))
            else unlogged (Inr nValueOut)))
        else unlogged (Inr a)))"
    proof (rule log_checked_and_then)
      show "log_checked M (neg_amt_logged M)"
        using M0 by (intro log_checked_neg) simp_all
    next
      fix negM
      assume "fst (neg_amt_logged M) = Inr negM"
      with False show "log_checked M
        (if sint ?vb < sint negM
           then unlogged (Inl (Invalid ''bad-txns-valuebalance-toolarge''))
         else if sint ?vb \<le> 0 then
           and_then_logged (neg_amt_logged ?vb) (\<lambda>negBalance.
           and_then_logged (add_amt_logged a negBalance) (\<lambda>nValueOut.
             if \<not> MoneyRange M nValueOut
               then unlogged (Inl (Invalid ''bad-txns-txouttotal-toolarge''))
             else unlogged (Inr nValueOut)))
         else unlogged (Inr a))"
        by (intro tail) simp_all
    qed
    with False show ?thesis by (simp add: valueBalance_checks_logged_def log_checked_unlogged)
  qed
qed

lemma valueBalance_in_logged_checked:
  assumes a: "MoneyRange M a" and M: "2 * sint M < 2 ^ 63"
    and vb: "sint (valueBalance tx) \<le> sint M"
  shows "log_checked M (valueBalance_in_logged M tx a)"
proof (cases "0 \<le> sint (valueBalance tx)")
  case False
  then show ?thesis by (simp add: valueBalance_in_logged_def log_checked_unlogged)
next
  case True
  with vb have b: "MoneyRange M (valueBalance tx)" by (simp add: MoneyRange_def)
  have "log_checked M
     (and_then_logged (add_amt_logged a (valueBalance tx)) (\<lambda>nValueIn.
        if \<not> MoneyRange M nValueIn
          then unlogged (Inl (Invalid ''bad-txns-txintotal-toolarge''))
        else unlogged (Inr nValueIn)))"
    using a b M by (intro log_checked_add_check log_checked_unlogged) simp_all
  with True show ?thesis by (simp add: valueBalance_in_logged_def)
qed

lemma CheckTransaction_logged_checked:
  assumes M0: "0 \<le> sint (MAX_MONEY P)" and M: "2 * sint (MAX_MONEY P) < 2 ^ 63"
  shows "log_checked (MAX_MONEY P) (CheckTransaction_logged P tx)"
proof -
  let ?M = "MAX_MONEY P"
  from M0 have zero: "MoneyRange ?M 0" by (simp add: MoneyRange_def)
  have a1: "MoneyRange ?M a1" if "fst (vout_loop_logged ?M 0 (vout tx)) = Inr a1" for a1
    using that vout_loop_Inr [of ?M 0 "vout tx" a1] zero by (simp add: fst_logged)
  have a2: "MoneyRange ?M a2" and vb: "sint (valueBalance tx) \<le> sint ?M"
    if "MoneyRange ?M a1" "fst (valueBalance_checks_logged ?M tx a1) = Inr a2" for a1 a2
  proof -
    from that(2) have vbc: "valueBalance_checks ?M tx a1 = Inr a2" by (simp add: fst_logged)
    from valueBalance_checks_Inr(5) [OF vbc that(1)] show "MoneyRange ?M a2" .
    from valueBalance_checks_Inr(3) [OF vbc] show "sint (valueBalance tx) \<le> sint ?M" .
  qed
  have new: "\<forall>joinsplit\<in>set (vJoinSplit tx). MoneyRange ?M (vpub_new joinsplit)"
    if "fst (joinsplit_loop_logged ?M a2 (vJoinSplit tx)) = Inr a3" for a2 a3
  proof -
    from that have "joinsplit_loop ?M a2 (vJoinSplit tx) = Inr a3" by (simp add: fst_logged)
    from joinsplit_loop_Inr [OF this] show ?thesis
      by (simp add: per_amount_ok_def MoneyRange_def)
  qed
  have b1: "MoneyRange ?M b1"
    if "fst (joinsplit_in_loop_logged ?M 0 (vJoinSplit tx)) = Inr b1" for b1
  proof -
    from that have "joinsplit_in_loop ?M 0 (vJoinSplit tx) = Inr b1" by (simp add: fst_logged)
    from joinsplit_in_loop_Inr [OF this] zero show ?thesis by blast
  qed
  show ?thesis unfolding CheckTransaction_logged_def
  proof (intro log_checked_and_then log_checked_unlogged)
    show "log_checked ?M (vout_loop_logged ?M 0 (vout tx))"
      using zero M by (rule vout_loop_logged_checked)
  next
    fix a1
    assume "fst (vout_loop_logged ?M 0 (vout tx)) = Inr a1"
    from M0 M a1 [OF this] show "log_checked ?M (valueBalance_checks_logged ?M tx a1)"
      by (rule valueBalance_checks_logged_checked)
  next
    fix a1 a2
    assume "fst (vout_loop_logged ?M 0 (vout tx)) = Inr a1"
      and "fst (valueBalance_checks_logged ?M tx a1) = Inr a2"
    from a2 [OF a1 [OF this(1)] this(2)] M
    show "log_checked ?M (joinsplit_loop_logged ?M a2 (vJoinSplit tx))"
      by (rule joinsplit_loop_logged_checked)
  next
    fix a2 a3
    assume "fst (joinsplit_loop_logged ?M a2 (vJoinSplit tx)) = Inr a3"
    from zero M new [OF this]
    show "log_checked ?M (joinsplit_in_loop_logged ?M 0 (vJoinSplit tx))"
      by (rule joinsplit_in_loop_logged_checked)
  next
    fix a1 a2 b1
    assume "fst (vout_loop_logged ?M 0 (vout tx)) = Inr a1"
      and "fst (valueBalance_checks_logged ?M tx a1) = Inr a2"
      and "fst (joinsplit_in_loop_logged ?M 0 (vJoinSplit tx)) = Inr b1"
    from b1 [OF this(3)] M vb [OF a1 [OF this(1)] this(2)]
    show "log_checked ?M (valueBalance_in_logged ?M tx b1)"
      by (rule valueBalance_in_logged_checked)
  qed
qed

section \<open>The claims\<close>

lemma CheckTransaction_Inr_stages:
  assumes "CheckTransaction P tx = Inr ()"
  obtains a1 a2 a3 b1 b2 where
    "vout_loop (MAX_MONEY P) 0 (vout tx) = Inr a1"
    "valueBalance_checks (MAX_MONEY P) tx a1 = Inr a2"
    "joinsplit_loop (MAX_MONEY P) a2 (vJoinSplit tx) = Inr a3"
    "joinsplit_in_loop (MAX_MONEY P) 0 (vJoinSplit tx) = Inr b1"
    "valueBalance_in (MAX_MONEY P) tx b1 = Inr b2"
  using assms unfolding CheckTransaction_def and_then_Inr_iff by blast

text \<open>
  Claim C1. Whenever \<open>CheckTransaction\<close> returns true, every transparent output amount
  lies in \<open>[0, MAX_MONEY]\<close>, and so do the exact output-side total (outputs, the negated
  value balance when it is not positive, every \<open>vpub_old\<close>) and the exact input-side
  total (every \<open>vpub_new\<close>, the value balance when it is not negative).
\<close>

theorem C1_valid_amounts_in_range:
  assumes "CheckTransaction P tx = Inr ()"
  shows "(\<forall>txout\<in>set (vout tx).
            0 \<le> sint (nValue txout) \<and> sint (nValue txout) \<le> sint (MAX_MONEY P))
     \<and> 0 \<le> out_total tx \<and> out_total tx \<le> sint (MAX_MONEY P)
     \<and> 0 \<le> in_total tx \<and> in_total tx \<le> sint (MAX_MONEY P)"
proof -
  let ?M = "MAX_MONEY P"
  from assms obtain a1 a2 a3 b1 b2 where
    s1: "vout_loop ?M 0 (vout tx) = Inr a1"
    and s2: "valueBalance_checks ?M tx a1 = Inr a2"
    and s3: "joinsplit_loop ?M a2 (vJoinSplit tx) = Inr a3"
    and s4: "joinsplit_in_loop ?M 0 (vJoinSplit tx) = Inr b1"
    and s5: "valueBalance_in ?M tx b1 = Inr b2"
    by (rule CheckTransaction_Inr_stages)
  have M0: "MoneyRange ?M 0"
    using valueBalance_checks_Inr(1) [OF s2] by (simp add: MoneyRange_def)
  note v = vout_loop_Inr [OF s1]
  note b = valueBalance_checks_Inr [OF s2]
  note j = joinsplit_loop_Inr [OF s3]
  note i = joinsplit_in_loop_Inr [OF s4]
  note w = valueBalance_in_Inr [OF s5]
  have outs: "\<forall>txout\<in>set (vout tx).
      0 \<le> sint (nValue txout) \<and> sint (nValue txout) \<le> sint ?M"
    using v by blast
  have "MoneyRange ?M a1" using v M0 by blast
  then have "MoneyRange ?M a2" by (rule b(5))
  then have a3: "MoneyRange ?M a3" using j by blast
  have "sint a3 = out_total tx"
    using v b(4) j by (simp add: out_total_def)
  with a3 have out: "0 \<le> out_total tx \<and> out_total tx \<le> sint ?M"
    by (simp add: MoneyRange_def)
  have "MoneyRange ?M b1" using i M0 by blast
  then have b2: "MoneyRange ?M b2" using w by blast
  have "sint b2 = in_total tx"
    using i w by (simp add: in_total_def)
  with b2 have "0 \<le> in_total tx \<and> in_total tx \<le> sint ?M"
    by (simp add: MoneyRange_def)
  with outs out show ?thesis by blast
qed

text \<open>
  The theorem at \<open>tx_shielded\<close>, which is accepted: its output of 5 units, its
  output-side total (5 + 2 + 3) and its input-side total (4) are within the bound.
\<close>

theorem C1_valid_amounts_in_range_witness:
  "CheckTransaction example_consts tx_shielded = Inr ()
   \<and> 0 \<le> sint (nValue (mk_out 5)) \<and> sint (nValue (mk_out 5)) \<le> sint (MAX_MONEY example_consts)
   \<and> 0 \<le> out_total tx_shielded \<and> out_total tx_shielded \<le> sint (MAX_MONEY example_consts)
   \<and> 0 \<le> in_total tx_shielded \<and> in_total tx_shielded \<le> sint (MAX_MONEY example_consts)"
proof -
  have h: "CheckTransaction example_consts tx_shielded = Inr ()"
    by (simp add: CheckTransaction_def pass_defs example_defs)
  have "mk_out 5 \<in> set (vout tx_shielded)" by (simp add: tx_shielded_def)
  with C1_valid_amounts_in_range [OF h] h show ?thesis by blast
qed

text \<open>
  Claim C2, as stated: a transaction with a repeated previous-output reference among its
  transparent inputs is rejected with \<open>bad-txns-inputs-duplicate\<close> whatever its other
  fields. It fails: \<open>tx_dup_inputs_no_out\<close> repeats an input and has no outputs, and
  line 15 rejects it with \<open>bad-txns-vout-empty\<close> before the duplicate check runs.
\<close>

theorem C2_duplicate_input_counterexample:
  "\<not> distinct (map prevout (vin tx_dup_inputs_no_out))
   \<and> CheckTransaction example_consts tx_dup_inputs_no_out = Inl (Invalid ''bad-txns-vout-empty'')"
  by (simp add: CheckTransaction_def pass_defs example_defs)

text \<open>
  Claim C2, amended: a transaction that passes every check before the duplicate checks
  (lines 13-93) and repeats a previous-output reference among its transparent inputs is
  rejected with \<open>bad-txns-inputs-duplicate\<close>.
\<close>

theorem C2_duplicate_input_after_earlier_passes:
  assumes "reaches_4_5 P tx = Inr nValueIn"
    and "\<not> distinct (map prevout (vin tx))"
  shows "CheckTransaction P tx = Inl (Invalid ''bad-txns-inputs-duplicate'')"
  using assms by (simp add: CheckTransaction_from_4_5 duplicate_checks_eq)

theorem C2_duplicate_input_after_earlier_passes_witness:
  "reaches_4_5 example_consts tx_dup_inputs = Inr 0
   \<and> \<not> distinct (map prevout (vin tx_dup_inputs))
   \<and> CheckTransaction example_consts tx_dup_inputs = Inl (Invalid ''bad-txns-inputs-duplicate'')"
proof -
  have h1: "reaches_4_5 example_consts tx_dup_inputs = Inr 0"
    by (simp add: prefix_defs pass_defs example_defs)
  have h2: "\<not> distinct (map prevout (vin tx_dup_inputs))"
    by (simp add: example_defs)
  from C2_duplicate_input_after_earlier_passes [OF h1 h2] h1 h2 show ?thesis by simp
qed

text \<open>
  Claim C7. A transaction without Sapling spends and outputs that reaches the
  value-balance checks with a non-zero value balance is rejected with
  \<open>bad-txns-valuebalance-nonzero\<close>, whatever the magnitude of the balance: line 35 runs
  before the magnitude check of line 39.
\<close>

theorem C7_valuebalance_nonzero:
  assumes "reaches_4_3 P tx = Inr nValueOut"
    and "vShieldedSpend tx = []" and "vShieldedOutput tx = []"
    and "valueBalance tx \<noteq> 0"
  shows "CheckTransaction P tx = Inl (Invalid ''bad-txns-valuebalance-nonzero'')"
  using assms by (simp add: CheckTransaction_from_4_3 valueBalance_checks_def)

text \<open>The theorem at a balance of \<open>MAX_MONEY + 1\<close>, which is also too large.\<close>

theorem C7_valuebalance_nonzero_witness:
  "reaches_4_3 example_consts tx_nonzero_balance = Inr 5
   \<and> vShieldedSpend tx_nonzero_balance = [] \<and> vShieldedOutput tx_nonzero_balance = []
   \<and> valueBalance tx_nonzero_balance \<noteq> 0
   \<and> sint (valueBalance tx_nonzero_balance) > sint (MAX_MONEY example_consts)
   \<and> CheckTransaction example_consts tx_nonzero_balance
       = Inl (Invalid ''bad-txns-valuebalance-nonzero'')"
proof -
  have h1: "reaches_4_3 example_consts tx_nonzero_balance = Inr 5"
    by (simp add: prefix_defs pass_defs example_defs)
  have h2: "vShieldedSpend tx_nonzero_balance = []" "vShieldedOutput tx_nonzero_balance = []"
    "valueBalance tx_nonzero_balance \<noteq> 0"
    "sint (valueBalance tx_nonzero_balance) > sint (MAX_MONEY example_consts)"
    by (simp_all add: example_defs)
  from C7_valuebalance_nonzero [OF h1 h2(1-3)] h1 h2 show ?thesis by simp
qed

text \<open>
  Claim C3. With a supply bound that the amount type can hold twice
  (\<open>0 \<le> MAX_MONEY\<close> and \<open>2 * MAX_MONEY < 2^63\<close>), on every transaction:
  the logged checker is the checker; every addition it executes has both operands (the
  running total and the amount added) already in \<open>[0, MAX_MONEY]\<close>, every negation
  has its operand in \<open>[-MAX_MONEY, MAX_MONEY]\<close>, and each operation is exact in
  \<open>int64_t\<close>; every sum produced lies in \<open>[0, MAX_MONEY]\<close>, or it is the last
  operation of the run, which then ends with \<open>bad-txns-txouttotal-toolarge\<close> or
  \<open>bad-txns-txintotal-toolarge\<close>, so no out-of-range sum is ever accumulated into;
  the run never ends in signed overflow; and the running total that each pass hands to
  the next (\<open>nValueOut\<close> after lines 22-32 and after lines 35-48, \<open>nValueIn\<close> after
  lines 77-93) lies in \<open>[0, MAX_MONEY]\<close>.
\<close>

theorem C3_no_signed_overflow:
  assumes "0 \<le> sint (MAX_MONEY P)" and "2 * sint (MAX_MONEY P) < 2 ^ 63"
  shows "fst (CheckTransaction_logged P tx) = CheckTransaction P tx
     \<and> (\<forall>op\<in>set (snd (CheckTransaction_logged P tx)).
           operands_confirmed (MAX_MONEY P) op \<and> op_exact op)
     \<and> (\<forall>ops a b ops'. snd (CheckTransaction_logged P tx) = ops @ Add a b # ops' \<longrightarrow>
           MoneyRange (MAX_MONEY P) (a + b)
           \<or> (ops' = []
              \<and> (CheckTransaction P tx = Inl (Invalid ''bad-txns-txouttotal-toolarge'')
                 \<or> CheckTransaction P tx = Inl (Invalid ''bad-txns-txintotal-toolarge''))))
     \<and> CheckTransaction P tx \<noteq> Inl SignedOverflow
     \<and> (\<forall>nValueOut. reaches_4_3 P tx = Inr nValueOut \<longrightarrow> MoneyRange (MAX_MONEY P) nValueOut)
     \<and> (\<forall>nValueOut. reaches_4_4 P tx = Inr nValueOut \<longrightarrow> MoneyRange (MAX_MONEY P) nValueOut)
     \<and> (\<forall>nValueIn. reaches_4_5 P tx = Inr nValueIn \<longrightarrow> MoneyRange (MAX_MONEY P) nValueIn)"
proof -
  note link = fst_CheckTransaction_logged [of P tx]
  from CheckTransaction_logged_checked [OF assms, of tx]
  have ops: "\<forall>op\<in>set (snd (CheckTransaction_logged P tx)).
      operands_confirmed (MAX_MONEY P) op \<and> op_exact op"
    and sums: "\<forall>ops a b ops'. snd (CheckTransaction_logged P tx) = ops @ Add a b # ops' \<longrightarrow>
      MoneyRange (MAX_MONEY P) (a + b)
      \<or> (ops' = []
         \<and> (CheckTransaction P tx = Inl (Invalid ''bad-txns-txouttotal-toolarge'')
            \<or> CheckTransaction P tx = Inl (Invalid ''bad-txns-txintotal-toolarge'')))"
    unfolding log_checked_def link by simp_all
  have no: "CheckTransaction P tx \<noteq> Inl SignedOverflow"
  proof
    assume "CheckTransaction P tx = Inl SignedOverflow"
    then show False unfolding CheckTransaction_from_4_5
    proof (cases rule: and_then_InlE)
      case 1
      with reaches_4_5_in_range(1) [OF assms] show False by simp
    next
      case (2 b)
      from 2(2) show False
      proof (cases rule: and_then_InlE)
        case 1
        with duplicate_checks_no_fault(1) show False by simp
      next
        case (2 u)
        with coinbase_or_ordinary_no_fault(1) show False by simp
      qed
    qed
  qed
  have hand: "(\<forall>nValueOut. reaches_4_3 P tx = Inr nValueOut \<longrightarrow> MoneyRange (MAX_MONEY P) nValueOut)
     \<and> (\<forall>nValueOut. reaches_4_4 P tx = Inr nValueOut \<longrightarrow> MoneyRange (MAX_MONEY P) nValueOut)
     \<and> (\<forall>nValueIn. reaches_4_5 P tx = Inr nValueIn \<longrightarrow> MoneyRange (MAX_MONEY P) nValueIn)"
    using reaches_4_3_in_range(2) [OF assms] reaches_4_4_in_range(2) [OF assms]
      reaches_4_5_in_range(2) [OF assms] by blast
  from link ops sums no hand show ?thesis by (intro conjI) simp_all
qed

text \<open>
  The theorem at the supply bound of Bitcoin and two transactions. \<open>tx_shielded\<close> is
  accepted after eight operations, all on confirmed operands, and its running totals are
  5, 7 and 4 at the three hand-overs. \<open>tx_out_total_too_large\<close> is rejected at its
  second addition, whose sum \<open>MAX_MONEY + 1\<close> is the last operation of the run.
\<close>

theorem C3_no_signed_overflow_witness:
  "0 \<le> sint (MAX_MONEY example_consts) \<and> 2 * sint (MAX_MONEY example_consts) < 2 ^ 63
   \<and> CheckTransaction_logged example_consts tx_shielded
       = (Inr (), [Add 0 5, Neg 2100000000000000, Neg (- 2), Add 5 2,
                   Add 7 3, Add 10 0, Add 0 0, Add 0 4])
   \<and> CheckTransaction example_consts tx_shielded = Inr ()
   \<and> operands_confirmed (MAX_MONEY example_consts) (Add 7 3) \<and> op_exact (Add 7 3)
   \<and> operands_confirmed (MAX_MONEY example_consts) (Neg (- 2)) \<and> op_exact (Neg (- 2))
   \<and> MoneyRange (MAX_MONEY example_consts) (7 + 3)
   \<and> CheckTransaction example_consts tx_shielded \<noteq> Inl SignedOverflow
   \<and> reaches_4_3 example_consts tx_shielded = Inr 5 \<and> MoneyRange (MAX_MONEY example_consts) 5
   \<and> reaches_4_4 example_consts tx_shielded = Inr 7 \<and> MoneyRange (MAX_MONEY example_consts) 7
   \<and> reaches_4_5 example_consts tx_shielded = Inr 4 \<and> MoneyRange (MAX_MONEY example_consts) 4
   \<and> CheckTransaction_logged example_consts tx_out_total_too_large
       = (Inl (Invalid ''bad-txns-txouttotal-toolarge''),
          [Add 0 2100000000000000, Add 2100000000000000 1])
   \<and> \<not> MoneyRange (MAX_MONEY example_consts) (2100000000000000 + 1)
   \<and> CheckTransaction example_consts tx_out_total_too_large
       = Inl (Invalid ''bad-txns-txouttotal-toolarge'')"
proof -
  let ?M = "MAX_MONEY example_consts"
  have h: "0 \<le> sint ?M" "2 * sint ?M < 2 ^ 63"
    by (simp_all add: example_consts_def)
  have l1: "CheckTransaction_logged example_consts tx_shielded
      = (Inr (), [Add 0 5, Neg 2100000000000000, Neg (- 2), Add 5 2,
                  Add 7 3, Add 10 0, Add 0 0, Add 0 4])"
    by (simp add: CheckTransaction_logged_def logged_defs pass_defs example_defs)
  have l2: "CheckTransaction_logged example_consts tx_out_total_too_large
      = (Inl (Invalid ''bad-txns-txouttotal-toolarge''),
         [Add 0 2100000000000000, Add 2100000000000000 1])"
    by (simp add: CheckTransaction_logged_def logged_defs pass_defs example_defs)
  have r: "reaches_4_3 example_consts tx_shielded = Inr 5"
    "reaches_4_4 example_consts tx_shielded = Inr 7"
    "reaches_4_5 example_consts tx_shielded = Inr 4"
    by (simp_all add: prefix_defs pass_defs example_defs)
  have big: "\<not> MoneyRange ?M (2100000000000000 + 1)"
    by (simp add: MoneyRange_def example_consts_def)
  note c1 = C3_no_signed_overflow [OF h, of tx_shielded]
  note c2 = C3_no_signed_overflow [OF h, of tx_out_total_too_large]
  from c1 l1 have v1: "CheckTransaction example_consts tx_shielded = Inr ()" by simp
  from c2 l2 have v2: "CheckTransaction example_consts tx_out_total_too_large
      = Inl (Invalid ''bad-txns-txouttotal-toolarge'')" by simp
  from c1 have "\<forall>op\<in>set (snd (CheckTransaction_logged example_consts tx_shielded)).
      operands_confirmed ?M op \<and> op_exact op" by simp
  then have o: "operands_confirmed ?M (Add 7 3)" "op_exact (Add 7 3)"
    "operands_confirmed ?M (Neg (- 2))" "op_exact (Neg (- 2))"
    unfolding l1 by simp_all
  from c1 have "\<forall>ops a b ops'.
      snd (CheckTransaction_logged example_consts tx_shielded) = ops @ Add a b # ops' \<longrightarrow>
        MoneyRange ?M (a + b)
        \<or> (ops' = []
           \<and> (CheckTransaction example_consts tx_shielded
                = Inl (Invalid ''bad-txns-txouttotal-toolarge'')
              \<or> CheckTransaction example_consts tx_shielded
                = Inl (Invalid ''bad-txns-txintotal-toolarge'')))" by simp
  from this [rule_format,
      of "[Add 0 5, Neg 2100000000000000, Neg (- 2), Add 5 2]" 7 3 "[Add 10 0, Add 0 0, Add 0 4]"]
  have s: "MoneyRange ?M (7 + 3)" unfolding l1 by simp
  from c1 have n: "CheckTransaction example_consts tx_shielded \<noteq> Inl SignedOverflow"
    and m: "MoneyRange ?M 5" "MoneyRange ?M 7" "MoneyRange ?M 4"
    using r by simp_all
  from h l1 v1 o s n r m l2 big v2 show ?thesis by (intro conjI)
qed

lemma and_then_cong_Inr:
  "(\<And>x. m = Inr x \<Longrightarrow> f x = g x) \<Longrightarrow> and_then m f = and_then m g"
  by (cases m) simp_all

lemma valueBalance_in_zero:
  assumes "valueBalance tx = 0" "MoneyRange M a"
  shows "valueBalance_in M tx a = Inr a" "valueBalance_in_spec M tx a = Inr a"
  using assms by (simp_all add: valueBalance_in_def valueBalance_in_spec_def add_amt_zero)

text \<open>
  Claim C4. On a transaction whose value balance is exactly zero, \<open>CheckTransaction\<close>
  (which adds the balance to \<open>nValueIn\<close> when it is \<open>\<ge> 0\<close>) and the specification's
  variant (which adds it only when it is \<open>> 0\<close>) end in the same way: the same verdict
  and the same reason code.
\<close>

theorem C4_zero_balance_same_verdict:
  assumes "valueBalance tx = 0"
  shows "CheckTransaction P tx = CheckTransaction_spec P tx"
  unfolding CheckTransaction_def CheckTransaction_spec_def
proof (intro and_then_cong_Inr)
  fix u a1 a2 a3 b1
  let ?M = "MAX_MONEY P"
  assume "valueBalance_checks ?M tx a1 = Inr a2"
    and b1: "joinsplit_in_loop ?M 0 (vJoinSplit tx) = Inr b1"
  from valueBalance_checks_Inr(1) [OF this(1)] have "MoneyRange ?M 0"
    by (simp add: MoneyRange_def)
  with joinsplit_in_loop_Inr [OF b1] have "MoneyRange ?M b1" by blast
  from valueBalance_in_zero [OF assms this]
  show "and_then (valueBalance_in ?M tx b1) (\<lambda>nValueIn.
          and_then (inputs_loop {} (vin tx)) (\<lambda>_.
          and_then (sprout_nullifiers_loop {} (vJoinSplit tx)) (\<lambda>_.
          and_then (sapling_nullifiers_loop {} (vShieldedSpend tx)) (\<lambda>_.
          coinbase_or_ordinary P tx))))
      = and_then (valueBalance_in_spec ?M tx b1) (\<lambda>total_in.
          and_then (inputs_loop {} (vin tx)) (\<lambda>_.
          and_then (sprout_nullifiers_loop {} (vJoinSplit tx)) (\<lambda>_.
          and_then (sapling_nullifiers_loop {} (vShieldedSpend tx)) (\<lambda>_.
          coinbase_or_ordinary P tx))))"
    by simp
qed

text \<open>
  The theorem at two transactions with a zero balance: \<open>tx_plain\<close>, accepted by both,
  and \<open>tx_js_both_nonzero\<close>, rejected by both with the same reason.
\<close>

theorem C4_zero_balance_same_verdict_witness:
  "valueBalance tx_plain = 0
   \<and> CheckTransaction example_consts tx_plain = Inr ()
   \<and> CheckTransaction_spec example_consts tx_plain = Inr ()
   \<and> valueBalance tx_js_both_nonzero = 0
   \<and> CheckTransaction example_consts tx_js_both_nonzero
       = Inl (Invalid ''bad-txns-vpubs-both-nonzero'')
   \<and> CheckTransaction_spec example_consts tx_js_both_nonzero
       = Inl (Invalid ''bad-txns-vpubs-both-nonzero'')"
proof -
  have z: "valueBalance tx_plain = 0" "valueBalance tx_js_both_nonzero = 0"
    by (simp_all add: example_defs)
  have c: "CheckTransaction example_consts tx_plain = Inr ()"
    "CheckTransaction example_consts tx_js_both_nonzero
       = Inl (Invalid ''bad-txns-vpubs-both-nonzero'')"
    by (simp_all add: CheckTransaction_def pass_defs example_defs)
  from C4_zero_balance_same_verdict [OF z(1), of example_consts]
    C4_zero_balance_same_verdict [OF z(2), of example_consts] z c
  show ?thesis by simp
qed

text \<open>
  Claim C5. For a coinbase transaction that passes every check before line 122, the
  verdict is \<open>bad-cb-length\<close> exactly when the unlocking script of \<open>vin[0]\<close> is shorter
  than 2 or longer than 100 bytes.
\<close>

theorem C5_coinbase_script_length:
  assumes "reaches_4_6 P tx = Inr ()" and "IsCoinBase P tx"
  shows "CheckTransaction P tx = Inl (Invalid ''bad-cb-length'')
     \<longleftrightarrow> length (scriptSig (vin tx ! 0)) < 2 \<or> length (scriptSig (vin tx ! 0)) > 100"
proof -
  from assms(2) obtain txin0 rest where v: "vin tx = txin0 # rest"
    by (auto simp: IsCoinBase_def split: list.splits)
  from assms have "CheckTransaction P tx = coinbase_checks tx"
    by (simp add: CheckTransaction_from_4_6 coinbase_or_ordinary_def)
  with v show ?thesis by (simp add: coinbase_checks_def)
qed

text \<open>
  The theorem at coinbase transactions with scripts of 1, 2, 100 and 101 bytes: the
  first and the last are rejected with \<open>bad-cb-length\<close>, the two in between are accepted.
\<close>

theorem C5_coinbase_script_length_witness:
  "reaches_4_6 example_consts (tx_coinbase 1) = Inr () \<and> IsCoinBase example_consts (tx_coinbase 1)
   \<and> CheckTransaction example_consts (tx_coinbase 1) = Inl (Invalid ''bad-cb-length'')
   \<and> reaches_4_6 example_consts (tx_coinbase 2) = Inr () \<and> IsCoinBase example_consts (tx_coinbase 2)
   \<and> CheckTransaction example_consts (tx_coinbase 2) \<noteq> Inl (Invalid ''bad-cb-length'')
   \<and> reaches_4_6 example_consts (tx_coinbase 100) = Inr () \<and> IsCoinBase example_consts (tx_coinbase 100)
   \<and> CheckTransaction example_consts (tx_coinbase 100) \<noteq> Inl (Invalid ''bad-cb-length'')
   \<and> reaches_4_6 example_consts (tx_coinbase 101) = Inr () \<and> IsCoinBase example_consts (tx_coinbase 101)
   \<and> CheckTransaction example_consts (tx_coinbase 101) = Inl (Invalid ''bad-cb-length'')"
proof -
  have r: "reaches_4_6 example_consts (tx_coinbase len) = Inr ()" for len
    by (simp add: prefix_defs pass_defs example_defs)
  have c: "IsCoinBase example_consts (tx_coinbase len)" for len
    by (simp add: IsCoinBase_def example_defs)
  have l: "length (scriptSig (vin (tx_coinbase len) ! 0)) = len" for len
    by (simp add: example_defs)
  from C5_coinbase_script_length [OF r c, of 1] C5_coinbase_script_length [OF r c, of 2]
    C5_coinbase_script_length [OF r c, of 100] C5_coinbase_script_length [OF r c, of 101] r c
  show ?thesis unfolding l by simp
qed

text \<open>
  Claim C6. When the previous-output references of the transparent inputs are pairwise
  distinct, the join-split nullifiers (flattened over all join-splits) are pairwise
  distinct and the Sapling spend nullifiers are pairwise distinct, \<open>CheckTransaction\<close>
  returns none of the three duplicate reason codes; a value shared between a join-split
  nullifier and a Sapling nullifier does not matter.
\<close>

theorem C6_no_duplicate_reason_without_repeat:
  assumes "distinct (map prevout (vin tx))"
    and "distinct (concat (map js_nullifiers (vJoinSplit tx)))"
    and "distinct (map nullifier (vShieldedSpend tx))"
  shows "CheckTransaction P tx \<noteq> Inl (Invalid ''bad-txns-inputs-duplicate'')
     \<and> CheckTransaction P tx \<noteq> Inl (Invalid ''bad-joinsplits-nullifiers-duplicate'')
     \<and> CheckTransaction P tx \<noteq> Inl (Invalid ''bad-spend-description-nullifiers-duplicate'')"
proof -
  from assms have d: "duplicate_checks tx = Inr ()" by (simp add: duplicate_checks_eq)
  have "r \<noteq> ''bad-txns-inputs-duplicate'' \<and> r \<noteq> ''bad-joinsplits-nullifiers-duplicate''
      \<and> r \<noteq> ''bad-spend-description-nullifiers-duplicate''"
    if "CheckTransaction P tx = Inl (Invalid r)" for r
    using that unfolding CheckTransaction_from_4_5
  proof (cases rule: and_then_InlE)
    case 1
    from reaches_4_5_not_duplicate [OF this] show ?thesis by simp
  next
    case (2 b)
    with d have "coinbase_or_ordinary P tx = Inl (Invalid r)" by simp
    from coinbase_or_ordinary_Inl [OF this] show ?thesis by auto
  qed
  then show ?thesis by blast
qed

text \<open>
  The theorem at \<open>tx_shielded\<close>, where the value 11 is both a join-split nullifier and
  the Sapling spend nullifier: the transaction is accepted.
\<close>

theorem C6_no_duplicate_reason_without_repeat_witness:
  "distinct (map prevout (vin tx_shielded))
   \<and> distinct (concat (map js_nullifiers (vJoinSplit tx_shielded)))
   \<and> distinct (map nullifier (vShieldedSpend tx_shielded))
   \<and> 11 \<in> set (concat (map js_nullifiers (vJoinSplit tx_shielded)))
   \<and> 11 \<in> set (map nullifier (vShieldedSpend tx_shielded))
   \<and> CheckTransaction example_consts tx_shielded = Inr ()
   \<and> CheckTransaction example_consts tx_shielded \<noteq> Inl (Invalid ''bad-txns-inputs-duplicate'')
   \<and> CheckTransaction example_consts tx_shielded
       \<noteq> Inl (Invalid ''bad-joinsplits-nullifiers-duplicate'')
   \<and> CheckTransaction example_consts tx_shielded
       \<noteq> Inl (Invalid ''bad-spend-description-nullifiers-duplicate'')"
proof -
  have h: "distinct (map prevout (vin tx_shielded))"
    "distinct (concat (map js_nullifiers (vJoinSplit tx_shielded)))"
    "distinct (map nullifier (vShieldedSpend tx_shielded))"
    "11 \<in> set (concat (map js_nullifiers (vJoinSplit tx_shielded)))"
    "11 \<in> set (map nullifier (vShieldedSpend tx_shielded))"
    by (simp_all add: js_nullifiers_def example_defs)
  have c: "CheckTransaction example_consts tx_shielded = Inr ()"
    by (simp add: CheckTransaction_def pass_defs example_defs)
  from C6_no_duplicate_reason_without_repeat [OF h(1-3), of example_consts] h c
  show ?thesis by blast
qed

text \<open>
  Claim C8, as stated: on a transaction that reaches the join-split loop, if the first
  join-split whose four per-amount checks pass has both amounts non-zero, the verdict is
  \<open>bad-txns-vpubs-both-nonzero\<close>. It fails: in \<open>tx_js_negative_first\<close> the first
  join-split has a negative \<open>vpub_old\<close>, so the first join-split whose per-amount checks
  pass is the second one, with both amounts 1; the loop stops at the first join-split
  with \<open>bad-txns-vpub_old-negative\<close>.
\<close>

theorem C8_both_nonzero_counterexample:
  "reaches_4_4 example_consts tx_js_negative_first = Inr 5
   \<and> find (per_amount_ok (MAX_MONEY example_consts)) (vJoinSplit tx_js_negative_first)
       = Some (mk_js 1 1 13 14)
   \<and> vpub_old (mk_js 1 1 13 14) \<noteq> 0 \<and> vpub_new (mk_js 1 1 13 14) \<noteq> 0
   \<and> CheckTransaction example_consts tx_js_negative_first
       = Inl (Invalid ''bad-txns-vpub_old-negative'')"
  by (simp add: CheckTransaction_def prefix_defs pass_defs per_amount_ok_def example_defs)

text \<open>
  Claim C8, amended: on a transaction that reaches the join-split loop, if a join-split
  passes its four per-amount checks and has both amounts non-zero, and the loop rejects
  no join-split before it, the verdict is \<open>bad-txns-vpubs-both-nonzero\<close>.
\<close>

theorem C8_both_nonzero_first_failure:
  assumes "reaches_4_4 P tx = Inr nValueOut"
    and "vJoinSplit tx = earlier @ joinsplit # later"
    and "joinsplit_loop (MAX_MONEY P) nValueOut earlier = Inr nValueOut'"
    and "per_amount_ok (MAX_MONEY P) joinsplit"
    and "vpub_old joinsplit \<noteq> 0" and "vpub_new joinsplit \<noteq> 0"
  shows "CheckTransaction P tx = Inl (Invalid ''bad-txns-vpubs-both-nonzero'')"
proof -
  from assms(4-6)
  have "joinsplit_loop (MAX_MONEY P) nValueOut' (joinsplit # later)
      = Inl (Invalid ''bad-txns-vpubs-both-nonzero'')"
    by (simp add: per_amount_ok_def)
  with assms(2,3)
  have "joinsplit_loop (MAX_MONEY P) nValueOut (vJoinSplit tx)
      = Inl (Invalid ''bad-txns-vpubs-both-nonzero'')"
    by (simp add: joinsplit_loop_append)
  with assms(1) show ?thesis by (simp add: CheckTransaction_from_4_4)
qed

text \<open>The theorem at \<open>tx_js_both_nonzero\<close>, whose first join-split is well-formed.\<close>

theorem C8_both_nonzero_first_failure_witness:
  "reaches_4_4 example_consts tx_js_both_nonzero = Inr 5
   \<and> vJoinSplit tx_js_both_nonzero = [mk_js 3 0 11 12] @ mk_js 1 1 13 14 # []
   \<and> joinsplit_loop (MAX_MONEY example_consts) 5 [mk_js 3 0 11 12] = Inr 8
   \<and> per_amount_ok (MAX_MONEY example_consts) (mk_js 1 1 13 14)
   \<and> vpub_old (mk_js 1 1 13 14) \<noteq> 0 \<and> vpub_new (mk_js 1 1 13 14) \<noteq> 0
   \<and> CheckTransaction example_consts tx_js_both_nonzero
       = Inl (Invalid ''bad-txns-vpubs-both-nonzero'')"
proof -
  have h1: "reaches_4_4 example_consts tx_js_both_nonzero = Inr 5"
    by (simp add: prefix_defs pass_defs example_defs)
  have h2: "vJoinSplit tx_js_both_nonzero = [mk_js 3 0 11 12] @ mk_js 1 1 13 14 # []"
    by (simp add: example_defs)
  have h3: "joinsplit_loop (MAX_MONEY example_consts) 5 [mk_js 3 0 11 12] = Inr 8"
    by (simp add: pass_defs example_defs)
  have h4: "per_amount_ok (MAX_MONEY example_consts) (mk_js 1 1 13 14)"
    by (simp add: per_amount_ok_def example_defs)
  have h5: "vpub_old (mk_js 1 1 13 14) \<noteq> 0" "vpub_new (mk_js 1 1 13 14) \<noteq> 0"
    by (simp_all add: example_defs)
  from C8_both_nonzero_first_failure [OF h1 h2 h3 h4 h5] h1 h2 h3 h4 h5
  show ?thesis by simp
qed

text \<open>
  Claim C9. A transaction classified as coinbase has a first transparent input, so the
  read of \<open>tx.vin[0]\<close> at line 124 is in bounds and \<open>CheckTransaction\<close> never indexes past
  the end of \<open>vin\<close>; a transaction without transparent inputs is rejected at line 13 or
  classified as ordinary, and the ordinary branch does not index \<open>vin\<close>.
\<close>

theorem C9_vin_index_in_bounds:
  "(IsCoinBase P tx \<longrightarrow> vin tx \<noteq> [] \<and> coinbase_checks tx \<noteq> Inl OutOfBounds)
   \<and> CheckTransaction P tx \<noteq> Inl OutOfBounds
   \<and> (vin tx = [] \<longrightarrow>
        structural_checks P tx = Inl (Invalid ''bad-txns-vin-empty'') \<or> \<not> IsCoinBase P tx)
   \<and> ordinary_checks P tx \<noteq> Inl OutOfBounds"
proof -
  have cb: "vin tx \<noteq> [] \<and> coinbase_checks tx \<noteq> Inl OutOfBounds" if "IsCoinBase P tx"
    using IsCoinBase_vin [OF that] coinbase_checks_Inl [of tx OutOfBounds] by auto
  have ord: "ordinary_checks P tx \<noteq> Inl OutOfBounds"
    using ordinary_checks_Inl [of P tx OutOfBounds] by auto
  have "CheckTransaction P tx \<noteq> Inl OutOfBounds"
  proof
    assume "CheckTransaction P tx = Inl OutOfBounds"
    then show False unfolding CheckTransaction_from_4_5
    proof (cases rule: and_then_InlE)
      case 1
      from reaches_4_5_Inl [OF this] show False by simp
    next
      case (2 b)
      from 2(2) show False
      proof (cases rule: and_then_InlE)
        case 1
        with duplicate_checks_no_fault(2) show False by simp
      next
        case (2 u)
        with coinbase_or_ordinary_no_fault(2) show False by simp
      qed
    qed
  qed
  with cb ord show ?thesis by (auto simp: IsCoinBase_def)
qed

text \<open>
  The theorem at a coinbase transaction and at \<open>tx_joinsplit_only\<close>, which has no
  transparent input, is classified as ordinary and is accepted.
\<close>

theorem C9_vin_index_in_bounds_witness:
  "IsCoinBase example_consts (tx_coinbase 2) \<and> vin (tx_coinbase 2) \<noteq> []
   \<and> coinbase_checks (tx_coinbase 2) = Inr ()
   \<and> CheckTransaction example_consts (tx_coinbase 2) = Inr ()
   \<and> vin tx_joinsplit_only = [] \<and> \<not> IsCoinBase example_consts tx_joinsplit_only
   \<and> CheckTransaction example_consts tx_joinsplit_only = Inr ()
   \<and> CheckTransaction example_consts tx_joinsplit_only \<noteq> Inl OutOfBounds"
proof -
  have c: "IsCoinBase example_consts (tx_coinbase 2)"
    "coinbase_checks (tx_coinbase 2) = Inr ()"
    "CheckTransaction example_consts (tx_coinbase 2) = Inr ()"
    by (simp_all add: CheckTransaction_def pass_defs example_defs)
  have e: "vin tx_joinsplit_only = []"
    "CheckTransaction example_consts tx_joinsplit_only = Inr ()"
    by (simp_all add: CheckTransaction_def pass_defs example_defs)
  have s: "structural_checks example_consts tx_joinsplit_only = Inr ()"
    by (simp add: pass_defs example_defs)
  from C9_vin_index_in_bounds [of example_consts "tx_coinbase 2"]
    C9_vin_index_in_bounds [of example_consts tx_joinsplit_only] c e s
  show ?thesis by simp
qed

lemma in_running_total_Suc:
  "in_running_total (x # xs) (Suc k) = sint (vpub_new x) + in_running_total xs k"
  by (simp add: in_running_total_def)

lemma joinsplit_in_loop_rejects_iff:
  assumes "\<forall>joinsplit\<in>set js. MoneyRange M (vpub_new joinsplit)"
    and "MoneyRange M a" and "2 * sint M < 2 ^ 63"
  shows "joinsplit_in_loop M a js = Inl (Invalid ''bad-txns-txintotal-toolarge'')
     \<longleftrightarrow> (\<exists>k. 1 \<le> k \<and> k \<le> length js
            \<and> \<not> (0 \<le> sint a + in_running_total js k \<and> sint a + in_running_total js k \<le> sint M))"
  using assms
proof (induction js arbitrary: a)
  case Nil
  then show ?case by simp
next
  case (Cons it rest)
  let ?bad = "\<lambda>a js k. \<not> (0 \<le> sint a + in_running_total js k
      \<and> sint a + in_running_total js k \<le> sint M)"
  from Cons.prems have v: "MoneyRange M (vpub_new it)"
    and rest: "\<forall>joinsplit\<in>set rest. MoneyRange M (vpub_new joinsplit)" by simp_all
  from v Cons.prems(2,3) have "in_int64 (sint a + sint (vpub_new it))"
    by (simp add: in_int64_def MoneyRange_def)
  then obtain s where s: "add_amt a (vpub_new it) = Inr s"
    using add_amt_total by blast
  note sum = add_amt_Inr [OF s]
  have shift: "?bad a (it # rest) (Suc k) \<longleftrightarrow> ?bad s rest k" for k
    by (simp add: in_running_total_Suc sum add.assoc)
  have first: "?bad a (it # rest) (Suc 0) \<longleftrightarrow> \<not> MoneyRange M s"
    by (simp add: in_running_total_def sum MoneyRange_def)
  show ?case
  proof (cases "MoneyRange M s")
    case False
    with s v have "joinsplit_in_loop M a (it # rest) = Inl (Invalid ''bad-txns-txintotal-toolarge'')"
      by simp
    moreover from False first have "1 \<le> Suc 0 \<and> Suc 0 \<le> length (it # rest) \<and> ?bad a (it # rest) (Suc 0)"
      by simp
    then have "\<exists>k. 1 \<le> k \<and> k \<le> length (it # rest) \<and> ?bad a (it # rest) k" by blast
    ultimately show ?thesis by simp
  next
    case True
    with s v have eq: "joinsplit_in_loop M a (it # rest) = joinsplit_in_loop M s rest"
      by simp
    have ih: "joinsplit_in_loop M s rest = Inl (Invalid ''bad-txns-txintotal-toolarge'')
        \<longleftrightarrow> (\<exists>k. 1 \<le> k \<and> k \<le> length rest \<and> ?bad s rest k)"
      by (rule Cons.IH [OF rest True Cons.prems(3)])
    have ex: "(\<exists>k. 1 \<le> k \<and> k \<le> length rest \<and> ?bad s rest k)
        \<longleftrightarrow> (\<exists>k. 1 \<le> k \<and> k \<le> length (it # rest) \<and> ?bad a (it # rest) k)"
    proof
      assume "\<exists>k. 1 \<le> k \<and> k \<le> length rest \<and> ?bad s rest k"
      then obtain k where "1 \<le> k" "k \<le> length rest" "?bad s rest k" by blast
      with shift [of k] have "1 \<le> Suc k \<and> Suc k \<le> length (it # rest) \<and> ?bad a (it # rest) (Suc k)"
        by simp
      then show "\<exists>k. 1 \<le> k \<and> k \<le> length (it # rest) \<and> ?bad a (it # rest) k" by blast
    next
      assume "\<exists>k. 1 \<le> k \<and> k \<le> length (it # rest) \<and> ?bad a (it # rest) k"
      then obtain k where k: "1 \<le> k" "k \<le> length (it # rest)" "?bad a (it # rest) k" by blast
      then obtain k' where k': "k = Suc k'" by (cases k) simp_all
      have "k' \<noteq> 0"
      proof
        assume "k' = 0"
        with k' k(3) have "?bad a (it # rest) (Suc 0)" by simp
        with first True show False by simp
      qed
      with k k' shift [of k'] have "1 \<le> k' \<and> k' \<le> length rest \<and> ?bad s rest k'" by simp
      then show "\<exists>k. 1 \<le> k \<and> k \<le> length rest \<and> ?bad s rest k" by blast
    qed
    show ?thesis unfolding eq ih ex ..
  qed
qed

text \<open>
  Claim C10. Once the first traversal of the join-splits (lines 51-71) has passed, every
  \<open>vpub_new\<close> is in \<open>[0, MAX_MONEY]\<close>, so the conjunct \<open>MoneyRange(it->vpub_new)\<close> of
  line 82 holds each time it is evaluated; and, for a supply bound that the amount type
  can hold twice, the second traversal returns \<open>bad-txns-txintotal-toolarge\<close> exactly
  when the exact running input-side total leaves \<open>[0, MAX_MONEY]\<close> after some join-split.
\<close>

theorem C10_second_traversal_total_only:
  assumes "joinsplit_loop M nValueOut js = Inr nValueOut'"
    and "2 * sint M < 2 ^ 63"
  shows "(\<forall>joinsplit\<in>set js. MoneyRange M (vpub_new joinsplit))
     \<and> (joinsplit_in_loop M 0 js = Inl (Invalid ''bad-txns-txintotal-toolarge'')
          \<longleftrightarrow> (\<exists>k\<in>{1..length js}.
                 \<not> (0 \<le> in_running_total js k \<and> in_running_total js k \<le> sint M)))"
proof -
  from joinsplit_loop_Inr [OF assms(1)]
  have ok: "\<forall>joinsplit\<in>set js. per_amount_ok M joinsplit" by blast
  then have r: "\<forall>joinsplit\<in>set js. MoneyRange M (vpub_new joinsplit)"
    by (simp add: per_amount_ok_def MoneyRange_def)
  show ?thesis
  proof (cases js)
    case Nil
    then show ?thesis by simp
  next
    case (Cons joinsplit rest)
    with ok have "per_amount_ok M joinsplit" by simp
    then have "MoneyRange M 0" by (simp add: per_amount_ok_def MoneyRange_def)
    from joinsplit_in_loop_rejects_iff [OF r this assms(2)]
    have "joinsplit_in_loop M 0 js = Inl (Invalid ''bad-txns-txintotal-toolarge'')
        \<longleftrightarrow> (\<exists>k. 1 \<le> k \<and> k \<le> length js
              \<and> \<not> (0 \<le> in_running_total js k \<and> in_running_total js k \<le> sint M))"
      by simp
    also have "\<dots> \<longleftrightarrow> (\<exists>k\<in>{1..length js}.
        \<not> (0 \<le> in_running_total js k \<and> in_running_total js k \<le> sint M))"
      by (simp add: Bex_def conj_assoc)
    finally show ?thesis using r by simp
  qed
qed

text \<open>
  The theorem at the join-splits of \<open>tx_shielded\<close>: the first traversal passes from a
  running output total of 7, and the second traversal ends with an input total of 4.
\<close>

theorem C10_second_traversal_total_only_witness:
  "joinsplit_loop (MAX_MONEY example_consts) 7 (vJoinSplit tx_shielded) = Inr 10
   \<and> 2 * sint (MAX_MONEY example_consts) < 2 ^ 63
   \<and> MoneyRange (MAX_MONEY example_consts) (vpub_new (mk_js 3 0 11 12))
   \<and> MoneyRange (MAX_MONEY example_consts) (vpub_new (mk_js 0 4 13 14))
   \<and> joinsplit_in_loop (MAX_MONEY example_consts) 0 (vJoinSplit tx_shielded) = Inr 4
   \<and> in_running_total (vJoinSplit tx_shielded) 1 = 0
   \<and> in_running_total (vJoinSplit tx_shielded) 2 = 4"
proof -
  have h1: "joinsplit_loop (MAX_MONEY example_consts) 7 (vJoinSplit tx_shielded) = Inr 10"
    by (simp add: pass_defs example_defs)
  have h2: "2 * sint (MAX_MONEY example_consts) < 2 ^ 63"
    by (simp add: example_consts_def)
  have m: "mk_js 3 0 11 12 \<in> set (vJoinSplit tx_shielded)"
    "mk_js 0 4 13 14 \<in> set (vJoinSplit tx_shielded)"
    by (simp_all add: tx_shielded_def)
  have e: "joinsplit_in_loop (MAX_MONEY example_consts) 0 (vJoinSplit tx_shielded) = Inr 4"
    "in_running_total (vJoinSplit tx_shielded) 1 = 0"
    "in_running_total (vJoinSplit tx_shielded) 2 = 4"
    by (simp_all add: in_running_total_def pass_defs example_defs)
  from C10_second_traversal_total_only [OF h1 h2] m h1 h2 e show ?thesis by simp
qed

end
